theory Spec2Isabelle
  imports Complex_Main "HOL-Library.Word"
begin

unbundle bit_operations_syntax

section \<open>Bytes, blobs and strings\<close>

text \<open>
  A \<open>Uint8Array\<close> is a list of 8-bit words and a \<open>Blob\<close> is the byte sequence it holds;
  \<open>new Blob(chunks)\<close> is the concatenation of the chunks.  The strings of the model
  manager (ids, checksums, header values, messages) are lists of code units below 256.
\<close>

type_synonym byte = "8 word"
type_synonym bytes = "byte list"
type_synonym Blob = "byte list"

section \<open>crypto.ts: checksums\<close>

text \<open>
  \<open>b.toString(16)\<close> on a non-negative integer: the hexadecimal digits, most significant
  first, lower case, no leading zeros.
\<close>

definition hexDigits :: string where
  "hexDigits = ''0123456789abcdef''"

definition hexDigit :: "nat \<Rightarrow> char" where
  "hexDigit d = hexDigits ! d"

fun toString16 :: "nat \<Rightarrow> string" where
  "toString16 n = (if n < 16 then [hexDigit n] else toString16 (n div 16) @ [hexDigit (n mod 16)])"

declare toString16.simps [simp del]

text \<open>\<open>s.padStart(n, c)\<close> with a one-character filler.\<close>

definition padStart :: "nat \<Rightarrow> char \<Rightarrow> string \<Rightarrow> string" where
  "padStart n c s = replicate (n - length s) c @ s"

definition bufferToHex :: "bytes \<Rightarrow> string" where
  "bufferToHex buffer = concat (map (\<lambda>b. padStart 2 (CHR ''0'') (toString16 (unat b))) buffer)"

text \<open>
  \<open>String.prototype.toLowerCase\<close> on code units below 256: the letters A-Z and the
  Latin-1 capitals U+00C0 to U+00DE (without the multiplication sign U+00D7) move up by 32,
  every other code unit stays.
\<close>

definition toLowerCase_char :: "char \<Rightarrow> char" where
  "toLowerCase_char c =
     (let n = (of_char c :: nat)
      in if (65 \<le> n \<and> n \<le> 90) \<or> (192 \<le> n \<and> n \<le> 222 \<and> n \<noteq> 215)
         then char_of (n + 32) else c)"

definition toLowerCase :: "string \<Rightarrow> string" where
  "toLowerCase s = map toLowerCase_char s"

text \<open>
  \<open>crypto.subtle.digest('SHA-256', buffer)\<close> belongs to the platform; the functions below
  take it as the parameter \<open>digest\<close>.
\<close>

definition computeChecksum :: "(bytes \<Rightarrow> bytes) \<Rightarrow> Blob \<Rightarrow> string" where
  "computeChecksum digest blob = bufferToHex (digest blob)"

definition verifyChecksum :: "(bytes \<Rightarrow> bytes) \<Rightarrow> Blob \<Rightarrow> string \<Rightarrow> bool" where
  "verifyChecksum digest blob expectedChecksum =
     (computeChecksum digest blob = toLowerCase expectedChecksum)"



section \<open>Numbers\<close>

text \<open>
  A JavaScript \<open>number\<close> is a rational, an infinity or \<open>NaN\<close>.  Arithmetic is exact: the
  rounding of IEEE doubles is not modelled, and neither is the sign of zero (the only
  divisor below is a sum with a non-negative summand, which is never \<open>-0\<close>).
\<close>

datatype number = Num rat | PosInf | NegInf | NaN

fun js_add :: "number \<Rightarrow> number \<Rightarrow> number" where
  "js_add (Num a) (Num b) = Num (a + b)"
| "js_add NaN _ = NaN"
| "js_add _ NaN = NaN"
| "js_add PosInf NegInf = NaN"
| "js_add NegInf PosInf = NaN"
| "js_add PosInf _ = PosInf"
| "js_add _ PosInf = PosInf"
| "js_add NegInf _ = NegInf"
| "js_add _ NegInf = NegInf"

fun js_div :: "number \<Rightarrow> number \<Rightarrow> number" where
  "js_div (Num a) (Num b) =
     (if b = 0 then (if a = 0 then NaN else if 0 < a then PosInf else NegInf) else Num (a / b))"
| "js_div NaN _ = NaN"
| "js_div _ NaN = NaN"
| "js_div (Num a) _ = Num 0"
| "js_div PosInf (Num b) = (if 0 \<le> b then PosInf else NegInf)"
| "js_div NegInf (Num b) = (if 0 \<le> b then NegInf else PosInf)"
| "js_div _ _ = NaN"

fun js_mul :: "number \<Rightarrow> number \<Rightarrow> number" where
  "js_mul (Num a) (Num b) = Num (a * b)"
| "js_mul NaN _ = NaN"
| "js_mul _ NaN = NaN"
| "js_mul (Num a) PosInf = (if a = 0 then NaN else if 0 < a then PosInf else NegInf)"
| "js_mul (Num a) NegInf = (if a = 0 then NaN else if 0 < a then NegInf else PosInf)"
| "js_mul PosInf (Num b) = (if b = 0 then NaN else if 0 < b then PosInf else NegInf)"
| "js_mul NegInf (Num b) = (if b = 0 then NaN else if 0 < b then NegInf else PosInf)"
| "js_mul PosInf PosInf = PosInf"
| "js_mul NegInf NegInf = PosInf"
| "js_mul _ _ = NegInf"

text \<open>\<open>a <= b\<close> on numbers: false as soon as one side is \<open>NaN\<close>.\<close>

fun js_le :: "number \<Rightarrow> number \<Rightarrow> bool" where
  "js_le (Num a) (Num b) = (a \<le> b)"
| "js_le NaN _ = False"
| "js_le _ NaN = False"
| "js_le NegInf _ = True"
| "js_le _ PosInf = True"
| "js_le _ _ = False"

text \<open>
  The decimal form of a non-negative integer, as a template literal \<open>${n}\<close> prints it
  (below \<open>10^21\<close>, where JavaScript switches to the exponent form).
\<close>

definition decDigits :: string where
  "decDigits = ''0123456789''"

fun numberToString :: "nat \<Rightarrow> string" where
  "numberToString n =
     (if n < 10 then [decDigits ! n] else numberToString (n div 10) @ [decDigits ! (n mod 10)])"

declare numberToString.simps [simp del]

text \<open>
  \<open>parseInt(s)\<close> with no radix: leading white space is skipped, then an optional sign, then
  an optional \<open>0x\<close> or \<open>0X\<close> selecting radix 16 (radix 10 otherwise), then the longest run
  of digits of that radix; \<open>NaN\<close> when that run is empty.
\<close>

definition isWhiteSpace :: "char \<Rightarrow> bool" where
  "isWhiteSpace c = ((of_char c :: nat) \<in> {9, 10, 11, 12, 13, 32, 160})"

definition digitValue :: "char \<Rightarrow> nat" where
  "digitValue c =
     (let n = (of_char c :: nat)
      in if 48 \<le> n \<and> n \<le> 57 then n - 48
         else if 97 \<le> n \<and> n \<le> 122 then n - 87
         else if 65 \<le> n \<and> n \<le> 90 then n - 55
         else 36)"

definition digitsValue :: "nat \<Rightarrow> string \<Rightarrow> nat" where
  "digitsValue radix ds = foldl (\<lambda>acc c. acc * radix + digitValue c) 0 ds"

definition parseInt :: "string \<Rightarrow> number" where
  "parseInt s =
     (let s1 = dropWhile isWhiteSpace s;
          negative = (case s1 of c # _ \<Rightarrow> c = CHR ''-'' | [] \<Rightarrow> False);
          s2 = (case s1 of c # r \<Rightarrow> if c = CHR ''-'' \<or> c = CHR ''+'' then r else s1 | [] \<Rightarrow> s1);
          hex = (take 2 s2 = ''0x'' \<or> take 2 s2 = ''0X'');
          radix = (if hex then 16 else 10);
          s3 = (if hex then drop 2 s2 else s2);
          ds = takeWhile (\<lambda>c. digitValue c < radix) s3
      in if ds = [] then NaN
         else if negative then Num (- of_nat (digitsValue radix ds))
         else Num (of_nat (digitsValue radix ds)))"

section \<open>types/index.ts\<close>

datatype ModelType = llm | stt

record ModelMetadata =
  id' :: string
  name :: string
  type :: ModelType
  version :: string
  size' :: nat
  quantization :: string
  capabilities :: "string list"
  license :: string
  redistributable :: bool
  checksum :: string
  signature :: "string option"
  url :: "string option"
  isSeed :: bool

record DeviceCapabilities =
  hasWebAssembly :: bool
  hasWebGPU :: bool
  availableMemoryGB :: rat
  cpuCores :: nat
  isMobile :: bool
  recommendedModel :: string

datatype status = pending | downloading | verifying | complete | error

record DownloadProgress =
  modelId :: string
  bytesDownloaded :: number
  totalBytes :: number
  percentage :: number
  status :: status
  error' :: "string option"

section \<open>The platform\<close>

text \<open>
  What a \<open>throw\<close> or a rejected promise carries: an \<open>Error\<close> with its message, or some
  other value.
\<close>

datatype thrown = Error string | NonError

fun message :: "thrown \<Rightarrow> string" where
  "message (Error m) = m"
| "message NonError = ''Unknown error''"

text \<open>
  A request as \<open>fetch\<close> receives it, and what it answers: the promise rejects, or it resolves
  to a response.  Of a response the code reads \<open>status\<close>, \<open>statusText\<close>, the
  \<open>Content-Length\<close> header and the body; a body is the chunks its reader delivers, ended by
  \<open>done\<close> or by a rejected \<open>read()\<close>.  The network is the parameter \<open>net\<close> of the
  functions below.
\<close>

record Request =
  req_url :: string
  req_headers :: "(string \<times> string) list"

datatype StreamEnd = EndOfStream | StreamError thrown

record Response =
  resp_status :: nat
  resp_statusText :: string
  resp_contentLength :: "string option"
  resp_body :: "(bytes list \<times> StreamEnd) option"

datatype FetchResult = Rejected thrown | Responded Response

definition ok :: "Response \<Rightarrow> bool" where
  "ok response = (200 \<le> resp_status response \<and> resp_status response \<le> 299)"

text \<open>\<open>response.blob()\<close>: the whole body, or the error that ended it.\<close>

definition blobOf :: "Response \<Rightarrow> thrown + Blob" where
  "blobOf response =
     (case resp_body response of
        None \<Rightarrow> Inr []
      | Some (incoming, EndOfStream) \<Rightarrow> Inr (concat incoming)
      | Some (incoming, StreamError e) \<Rightarrow> Inl e)"

text \<open>
  \<open>new Uint8Array(b)\<close> for a \<open>Blob\<close> \<open>b\<close> read back from the store: a \<open>Blob\<close> is neither a
  typed array nor an \<open>ArrayBuffer\<close>, it is not iterable and it has no \<open>length\<close> property, so
  the constructor treats it as an array-like object of length 0.
\<close>

definition uint8ArrayOfBlob :: "Blob \<Rightarrow> bytes" where
  "uint8ArrayOfBlob b = []"

text \<open>
  What \<open>navigator.storage.estimate()\<close> resolves to.  The estimate the functions below take
  is \<open>None\<close> when the platform has no such call, \<open>Some (Inl e)\<close> when the call rejects
  with \<open>e\<close>, and \<open>Some (Inr est)\<close> when it resolves.
\<close>

record StorageEstimate =
  quota :: "nat option"
  usage :: "nat option"

section \<open>storage.ts: the stores\<close>

text \<open>
  The object stores \<open>models\<close> and \<open>downloadProgress\<close> are maps from the key to the record.
  The world also keeps what the code sends out: the progress events dispatched on
  \<open>window\<close>, the requests handed to \<open>fetch\<close>, and the console, each oldest first.

  Every store operation opens the database first (\<open>initDB\<close>), which is the parameter
  \<open>db\<close> of the functions below: \<open>None\<close> when the database opens, \<open>Some e\<close> when opening
  it or reading from it rejects with \<open>e\<close>.  The first store operation of
  \<open>ensureSeedModels\<close> and of \<open>startBackgroundModelFetch\<close> is an \<open>isModelReady\<close> that no
  handler surrounds, so with a database that does not open they reject there, before
  anything else runs.  With the database open the store operations are taken not to fail.
\<close>

record ModelRecord =
  r_id :: string
  r_metadata :: ModelMetadata
  r_blob :: Blob
  r_verified :: bool

record ProgressRecord =
  p_modelId :: string
  p_bytesDownloaded :: nat
  p_totalBytes :: number
  p_chunks :: "Blob list"

datatype level = Log | Warn | Err

record World =
  models :: "string \<Rightarrow> ModelRecord option"
  downloadProgress :: "string \<Rightarrow> ProgressRecord option"
  dispatched :: "DownloadProgress list"
  fetched :: "Request list"
  console :: "(level \<times> string) list"

definition saveModel :: "ModelMetadata \<Rightarrow> Blob \<Rightarrow> bool \<Rightarrow> World \<Rightarrow> World" where
  "saveModel metadata blob verified w =
     w\<lparr>models := (models w)(id' metadata \<mapsto>
         \<lparr>r_id = id' metadata, r_metadata = metadata, r_blob = blob, r_verified = verified\<rparr>)\<rparr>"

definition getModel :: "string \<Rightarrow> World \<Rightarrow> Blob option" where
  "getModel mid w = map_option r_blob (models w mid)"

definition getModelMetadata :: "string \<Rightarrow> World \<Rightarrow> ModelMetadata option" where
  "getModelMetadata mid w = map_option r_metadata (models w mid)"

definition isModelReady :: "string \<Rightarrow> World \<Rightarrow> bool" where
  "isModelReady mid w = (case models w mid of None \<Rightarrow> False | Some r \<Rightarrow> r_verified r)"

text \<open>\<open>await isModelReady(id)\<close>: the rejection of the database, or the answer.\<close>

definition awaitIsModelReady :: "thrown option \<Rightarrow> string \<Rightarrow> World \<Rightarrow> thrown + bool" where
  "awaitIsModelReady db mid w = (case db of Some e \<Rightarrow> Inl e | None \<Rightarrow> Inr (isModelReady mid w))"

definition saveDownloadProgress :: "string \<Rightarrow> nat \<Rightarrow> number \<Rightarrow> Blob list \<Rightarrow> World \<Rightarrow> World" where
  "saveDownloadProgress mid n totalB chunks w =
     w\<lparr>downloadProgress := (downloadProgress w)(mid \<mapsto>
         \<lparr>p_modelId = mid, p_bytesDownloaded = n, p_totalBytes = totalB, p_chunks = chunks\<rparr>)\<rparr>"

definition getDownloadProgress :: "string \<Rightarrow> World \<Rightarrow> ProgressRecord option" where
  "getDownloadProgress mid w = downloadProgress w mid"

definition clearDownloadProgress :: "string \<Rightarrow> World \<Rightarrow> World" where
  "clearDownloadProgress mid w = w\<lparr>downloadProgress := (downloadProgress w)(mid := None)\<rparr>"

section \<open>capabilities.ts\<close>

definition checkStorageAvailability ::
  "(thrown + StorageEstimate) option \<Rightarrow> rat \<Rightarrow> thrown + bool"
where
  "checkStorageAvailability estimate requiredMB =
     (case estimate of
        Some (Inl e) \<Rightarrow> Inl e
      | Some (Inr est) \<Rightarrow>
          (let availableMB =
                 (of_nat (case quota est of None \<Rightarrow> 0 | Some q \<Rightarrow> q)
                  - of_nat (case usage est of None \<Rightarrow> 0 | Some u \<Rightarrow> u)) / (1024 * 1024)
           in Inr (availableMB \<ge> requiredMB))
      | None \<Rightarrow> Inr True)"

section \<open>model-manager.ts\<close>

definition MODEL_REGISTRY_URL :: string where
  "MODEL_REGISTRY_URL = ''https://models.example.com''"

definition DEFAULT_MANIFEST_models :: "ModelMetadata list" where
  "DEFAULT_MANIFEST_models =
    [\<lparr>id' = ''llm-seed-q8'', name = ''Seed LLM (Q8)'', type = llm, version = ''1.0'',
      size' = 45 * 1024 * 1024, quantization = ''Q8_0'',
      capabilities = [''referral-generation'', ''en'', ''ar''], license = ''Apache-2.0'',
      redistributable = True, checksum = ''abc123...'', signature = None, url = None,
      isSeed = True\<rparr>,
     \<lparr>id' = ''llm-small-q4'', name = ''Small LLM (Q4)'', type = llm, version = ''1.0'',
      size' = 180 * 1024 * 1024, quantization = ''Q4_K_M'',
      capabilities = [''referral-generation'', ''en'', ''ar'', ''high-accuracy''],
      license = ''Apache-2.0'', redistributable = True, checksum = ''def456...'',
      signature = None, url = Some (MODEL_REGISTRY_URL @ ''/llm-small-q4.gguf''),
      isSeed = False\<rparr>,
     \<lparr>id' = ''llm-medium-q4'', name = ''Medium LLM (Q4)'', type = llm, version = ''1.0'',
      size' = 420 * 1024 * 1024, quantization = ''Q4_K_M'',
      capabilities = [''referral-generation'', ''en'', ''ar'', ''high-accuracy'', ''complex-cases''],
      license = ''Llama-2'', redistributable = False, checksum = ''ghi789...'',
      signature = None, url = Some (MODEL_REGISTRY_URL @ ''/llm-medium-q4.gguf''),
      isSeed = False\<rparr>,
     \<lparr>id' = ''stt-whisper-tiny'', name = ''Whisper Tiny (STT)'', type = stt, version = ''1.0'',
      size' = 75 * 1024 * 1024, quantization = ''Q5_1'',
      capabilities = [''stt'', ''en'', ''ar''], license = ''MIT'',
      redistributable = True, checksum = ''jkl012...'', signature = None, url = None,
      isSeed = True\<rparr>,
     \<lparr>id' = ''stt-whisper-base'', name = ''Whisper Base (STT)'', type = stt, version = ''1.0'',
      size' = 140 * 1024 * 1024, quantization = ''Q5_1'',
      capabilities = [''stt'', ''en'', ''ar'', ''high-accuracy''], license = ''MIT'',
      redistributable = True, checksum = ''mno345...'', signature = None,
      url = Some (MODEL_REGISTRY_URL @ ''/stt-whisper-base.bin''), isSeed = False\<rparr>]"

text \<open>
  \<open>console.log\<close>, \<open>console.warn\<close> and \<open>console.error\<close> append their first argument to
  the console; \<open>window.dispatchEvent\<close> appends the event to the dispatched ones.
\<close>

definition consoleOut :: "level \<Rightarrow> string \<Rightarrow> World \<Rightarrow> World" where
  "consoleOut l msg w = w\<lparr>console := console w @ [(l, msg)]\<rparr>"

definition emitDownloadProgress :: "DownloadProgress \<Rightarrow> World \<Rightarrow> World" where
  "emitDownloadProgress progress w = w\<lparr>dispatched := dispatched w @ [progress]\<rparr>"

definition fetch :: "(Request \<Rightarrow> FetchResult) \<Rightarrow> Request \<Rightarrow> World \<Rightarrow> World \<times> FetchResult" where
  "fetch net request w = (w\<lparr>fetched := fetched w @ [request]\<rparr>, net request)"

subsection \<open>Seed models\<close>

definition loadSeedModel ::
  "(bytes \<Rightarrow> bytes) \<Rightarrow> (Request \<Rightarrow> FetchResult) \<Rightarrow> ModelMetadata \<Rightarrow> World \<Rightarrow> World \<times> (thrown + unit)"
where
  "loadSeedModel digest net metadata w =
     (let (w1, answer) =
            fetch net \<lparr>req_url = ''/models/'' @ id' metadata @ ''.gguf'', req_headers = []\<rparr> w;
          attempt =
            (case answer of
               Rejected e \<Rightarrow> Inl e
             | Responded response \<Rightarrow>
                 if \<not> ok response
                 then Inl (Error (''Failed to load seed model: '' @ resp_statusText response))
                 else (case blobOf response of
                         Inl e \<Rightarrow> Inl e
                       | Inr blob \<Rightarrow>
                           if \<not> verifyChecksum digest blob (checksum metadata)
                           then Inl (Error (''Checksum verification failed for '' @ id' metadata))
                           else Inr blob))
      in case attempt of
           Inr blob \<Rightarrow>
             (consoleOut Log (''[ModelManager] Seed model loaded: '' @ id' metadata)
                (saveModel metadata blob True w1), Inr ())
         | Inl e \<Rightarrow>
             (consoleOut Err (''[ModelManager] Failed to load seed model '' @ id' metadata @ '':'') w1,
              Inl e))"

text \<open>The \<open>for\<close> loop of \<open>ensureSeedModels\<close> over the seed models still to visit.\<close>

fun ensureSeedModels_loop ::
  "(bytes \<Rightarrow> bytes) \<Rightarrow> (Request \<Rightarrow> FetchResult) \<Rightarrow> thrown option \<Rightarrow> ModelMetadata list
     \<Rightarrow> World \<Rightarrow> World \<times> (thrown + unit)"
where
  "ensureSeedModels_loop digest net db [] w = (w, Inr ())"
| "ensureSeedModels_loop digest net db (model # rest) w =
     (case awaitIsModelReady db (id' model) w of
        Inl e \<Rightarrow> (w, Inl e)
      | Inr ready \<Rightarrow>
          if \<not> ready
          then (case loadSeedModel digest net model
                       (consoleOut Log (''[ModelManager] Loading seed model: '' @ id' model) w) of
                  (w1, Inl e) \<Rightarrow> (w1, Inl e)
                | (w1, Inr u) \<Rightarrow> ensureSeedModels_loop digest net db rest w1)
          else ensureSeedModels_loop digest net db rest
                 (consoleOut Log (''[ModelManager] Seed model already cached: '' @ id' model) w))"

definition ensureSeedModels ::
  "(bytes \<Rightarrow> bytes) \<Rightarrow> (Request \<Rightarrow> FetchResult) \<Rightarrow> thrown option \<Rightarrow> World
     \<Rightarrow> World \<times> (thrown + unit)"
where
  "ensureSeedModels digest net db w =
     ensureSeedModels_loop digest net db (filter isSeed DEFAULT_MANIFEST_models) w"

subsection \<open>The download\<close>

text \<open>
  \<open>parseInt(response.headers.get('Content-Length') || '0') + startByte\<close>: an absent or empty
  header reads as \<open>'0'\<close>.
\<close>

definition totalBytesOf :: "Response \<Rightarrow> nat \<Rightarrow> number" where
  "totalBytesOf response startByte =
     js_add (parseInt (case resp_contentLength response of
                         None \<Rightarrow> ''0''
                       | Some h \<Rightarrow> if h = [] then ''0'' else h))
            (Num (of_nat startByte))"

text \<open>
  The \<open>while (true)\<close> loop over the chunks the reader still delivers; the state is
  \<open>chunks\<close>, \<open>bytesDownloaded\<close> and the world.
\<close>

fun readLoop ::
  "string \<Rightarrow> number \<Rightarrow> bytes list \<Rightarrow> bytes list \<times> nat \<times> World \<Rightarrow> bytes list \<times> nat \<times> World"
where
  "readLoop mid totalB [] st = st"
| "readLoop mid totalB (v # rest) (chunks, n, w) =
     (let chunks1 = chunks @ [v];
          n1 = n + length v;
          w1 = (if length chunks1 mod 10 = 0
                then saveDownloadProgress mid n1 totalB chunks1 w else w);
          w2 = emitDownloadProgress
                 \<lparr>modelId = mid, bytesDownloaded = Num (of_nat n1), totalBytes = totalB,
                  percentage = js_mul (js_div (Num (of_nat n1)) totalB) (Num 100),
                  status = downloading, error' = None\<rparr> w1
      in readLoop mid totalB rest (chunks1, n1, w2))"

text \<open>The \<open>try\<close> block of \<open>downloadModelInBackground\<close>, for the url \<open>u\<close>.\<close>

definition downloadModelInBackground_try ::
  "(bytes \<Rightarrow> bytes) \<Rightarrow> (Request \<Rightarrow> FetchResult) \<Rightarrow> ModelMetadata \<Rightarrow> string \<Rightarrow> World
     \<Rightarrow> World \<times> (thrown + unit)"
where
  "downloadModelInBackground_try digest net metadata u w =
     (let progress = getDownloadProgress (id' metadata) w;
          startByte = (case progress of None \<Rightarrow> 0 | Some p \<Rightarrow> p_bytesDownloaded p);
          w1 = consoleOut Log (''[ModelManager] Downloading '' @ id' metadata @ '' from byte ''
                 @ numberToString startByte) w;
          (w2, answer) =
            fetch net \<lparr>req_url = u,
                       req_headers = (if startByte > 0
                                      then [(''Range'', ''bytes='' @ numberToString startByte @ ''-'')]
                                      else [])\<rparr> w1
      in case answer of
           Rejected e \<Rightarrow> (w2, Inl e)
         | Responded response \<Rightarrow>
             if \<not> ok response \<and> resp_status response \<noteq> 206
             then (w2, Inl (Error (''Download failed: '' @ resp_statusText response)))
             else
               (let totalB = totalBytesOf response startByte
                in case resp_body response of
                     None \<Rightarrow> (w2, Inl (Error ''Response body is not readable''))
                   | Some (incoming, ending) \<Rightarrow>
                       (let chunks0 = (case progress of
                                         None \<Rightarrow> []
                                       | Some p \<Rightarrow> map uint8ArrayOfBlob (p_chunks p));
                            (chunks, n, w3) =
                              readLoop (id' metadata) totalB incoming (chunks0, startByte, w2)
                        in case ending of
                             StreamError e \<Rightarrow> (w3, Inl e)
                           | EndOfStream \<Rightarrow>
                               (let modelBlob = concat chunks;
                                    w4 = consoleOut Log
                                           (''[ModelManager] Verifying '' @ id' metadata @ ''...'') w3;
                                    w5 = emitDownloadProgress
                                           \<lparr>modelId = id' metadata, bytesDownloaded = totalB,
                                            totalBytes = totalB, percentage = Num 100,
                                            status = verifying, error' = None\<rparr> w4
                                in if \<not> verifyChecksum digest modelBlob (checksum metadata)
                                   then (w5, Inl (Error (''Checksum verification failed for ''
                                                           @ id' metadata)))
                                   else
                                     (let w6 = saveModel metadata modelBlob True w5;
                                          w7 = clearDownloadProgress (id' metadata) w6;
                                          w8 = consoleOut Log
                                                 (''[ModelManager] Model downloaded and verified: ''
                                                    @ id' metadata) w7;
                                          w9 = emitDownloadProgress
                                                 \<lparr>modelId = id' metadata, bytesDownloaded = totalB,
                                                  totalBytes = totalB, percentage = Num 100,
                                                  status = complete, error' = None\<rparr> w8
                                      in (w9, Inr ()))))))"

text \<open>
  The whole function: the guard on the url, then the \<open>try\<close> block, then the \<open>catch\<close>
  block, which reports the error and throws it again.
\<close>

definition downloadModelInBackground ::
  "(bytes \<Rightarrow> bytes) \<Rightarrow> (Request \<Rightarrow> FetchResult) \<Rightarrow> ModelMetadata \<Rightarrow> World
     \<Rightarrow> World \<times> (thrown + unit)"
where
  "downloadModelInBackground digest net metadata w =
     (case url metadata of
        None \<Rightarrow> (w, Inl (Error (''No URL specified for model '' @ id' metadata)))
      | Some u \<Rightarrow>
          if u = [] then (w, Inl (Error (''No URL specified for model '' @ id' metadata)))
          else
            (case downloadModelInBackground_try digest net metadata u w of
               (w1, Inr fin) \<Rightarrow> (w1, Inr fin)
             | (w1, Inl e) \<Rightarrow>
                 (emitDownloadProgress
                    \<lparr>modelId = id' metadata, bytesDownloaded = Num 0,
                     totalBytes = Num (of_nat (size' metadata)), percentage = Num 0,
                     status = error, error' = Some (message e)\<rparr>
                    (consoleOut Err
                       (''[ModelManager] Download failed for '' @ id' metadata @ '':'') w1),
                  Inl e)))"

subsection \<open>Background fetch, initialisation, hand-off\<close>

text \<open>
  \<open>startBackgroundModelFetch\<close> starts the download without awaiting it and attaches a
  \<open>catch\<close> handler; here the download runs to its end at that point.  The two awaits
  before it, of \<open>isModelReady\<close> and of \<open>checkStorageAvailability\<close>, have no handler: when
  one rejects, the function rejects to its caller.  The platform's storage estimate is the
  parameter \<open>estimate\<close>, and what \<open>detectCapabilities\<close> reads from the platform is the
  parameter \<open>caps\<close>.
\<close>

definition startBackgroundModelFetch ::
  "(bytes \<Rightarrow> bytes) \<Rightarrow> (Request \<Rightarrow> FetchResult) \<Rightarrow> thrown option
     \<Rightarrow> (thrown + StorageEstimate) option \<Rightarrow> DeviceCapabilities \<Rightarrow> World
     \<Rightarrow> World \<times> (thrown + unit)"
where
  "startBackgroundModelFetch digest net db estimate caps w =
     (case find (\<lambda>m. id' m = recommendedModel caps) DEFAULT_MANIFEST_models of
        None \<Rightarrow> (consoleOut Log ''[ModelManager] No additional models to fetch'' w, Inr ())
      | Some model \<Rightarrow>
          if isSeed model
          then (consoleOut Log ''[ModelManager] No additional models to fetch'' w, Inr ())
          else
            (case awaitIsModelReady db (id' model) w of
               Inl e \<Rightarrow> (w, Inl e)
             | Inr ready \<Rightarrow>
                 if ready
                 then (consoleOut Log (''[ModelManager] Model already available: '' @ id' model) w,
                       Inr ())
                 else
                   (case checkStorageAvailability estimate (of_nat (size' model) / (1024 * 1024)) of
                      Inl e \<Rightarrow> (w, Inl e)
                    | Inr hasStorage \<Rightarrow>
                        if \<not> hasStorage
                        then (consoleOut Warn
                                ''[ModelManager] Insufficient storage for model download'' w,
                              Inr ())
                        else
                          (case downloadModelInBackground digest net model
                                  (consoleOut Log
                                     (''[ModelManager] Starting background fetch: '' @ id' model) w) of
                             (w1, Inl e) \<Rightarrow>
                               (consoleOut Err ''[ModelManager] Background download failed:'' w1,
                                Inr ())
                           | (w1, Inr fin) \<Rightarrow> (w1, Inr ())))))"

definition initializeModelManager ::
  "(bytes \<Rightarrow> bytes) \<Rightarrow> (Request \<Rightarrow> FetchResult) \<Rightarrow> thrown option
     \<Rightarrow> (thrown + StorageEstimate) option \<Rightarrow> DeviceCapabilities \<Rightarrow> World
     \<Rightarrow> World \<times> (thrown + unit)"
where
  "initializeModelManager digest net db estimate caps w =
     (case ensureSeedModels digest net db
             (consoleOut Log ''[ModelManager] Device capabilities:''
                (consoleOut Log ''[ModelManager] Initializing...'' w)) of
        (w1, Inl e) \<Rightarrow> (w1, Inl e)
      | (w1, Inr fin) \<Rightarrow> startBackgroundModelFetch digest net db estimate caps w1)"

definition loadModelForInference :: "(bytes \<Rightarrow> bytes) \<Rightarrow> string \<Rightarrow> World \<Rightarrow> thrown + Blob" where
  "loadModelForInference digest mid w =
     (case getModel mid w of
        None \<Rightarrow> Inl (Error (''Model not found: '' @ mid))
      | Some blob \<Rightarrow>
          (case getModelMetadata mid w of
             None \<Rightarrow> Inl (Error (''Model metadata not found: '' @ mid))
           | Some metadata \<Rightarrow>
               if \<not> verifyChecksum digest blob (checksum metadata)
               then Inl (Error (''Model integrity check failed: '' @ mid))
               else Inr blob))"

section \<open>crypto.ts: encryption at rest\<close>

text \<open>
  The strings that \<open>encrypt\<close> takes and \<open>decrypt\<close> returns are sequences of UTF-16 code
  units.  \<open>TextEncoder\<close>, \<open>TextDecoder\<close>, \<open>btoa\<close> and \<open>atob\<close> belong to the platform and
  are written out below after the Encoding and HTML standards, on the numbers of the bytes
  and code points.  Key derivation, AES-GCM and the random values are parameters.  So is
  \<open>maxArguments\<close>, the largest number of arguments the engine accepts in one call: the
  language leaves it to the engine, and it lies between some tens of thousands and a few
  hundred thousand.
\<close>

type_synonym DOMString = "16 word list"

subsection \<open>TextEncoder\<close>

definition isHighSurrogate :: "16 word \<Rightarrow> bool" where
  "isHighSurrogate c = (0xD800 \<le> unat c \<and> unat c \<le> 0xDBFF)"

definition isLowSurrogate :: "16 word \<Rightarrow> bool" where
  "isLowSurrogate c = (0xDC00 \<le> unat c \<and> unat c \<le> 0xDFFF)"

text \<open>
  The scalar values of a string: a high surrogate followed by a low one is one code point
  above U+FFFF, any other surrogate becomes U+FFFD.
\<close>

fun scalarValues :: "DOMString \<Rightarrow> nat list" where
  "scalarValues [] = []"
| "scalarValues [c] = (if isHighSurrogate c \<or> isLowSurrogate c then [0xFFFD] else [unat c])"
| "scalarValues (c # d # r) =
     (if isHighSurrogate c \<and> isLowSurrogate d
      then (0x10000 + (unat c - 0xD800) * 0x400 + (unat d - 0xDC00)) # scalarValues r
      else if isHighSurrogate c \<or> isLowSurrogate c then 0xFFFD # scalarValues (d # r)
      else unat c # scalarValues (d # r))"

definition utf8Bytes :: "nat \<Rightarrow> nat list" where
  "utf8Bytes cp =
     (if cp < 0x80 then [cp]
      else if cp < 0x800 then [0xC0 + cp div 64, 0x80 + cp mod 64]
      else if cp < 0x10000 then [0xE0 + cp div 4096, 0x80 + (cp div 64) mod 64, 0x80 + cp mod 64]
      else [0xF0 + cp div 262144, 0x80 + (cp div 4096) mod 64, 0x80 + (cp div 64) mod 64,
            0x80 + cp mod 64])"

definition TextEncoder_encode :: "DOMString \<Rightarrow> bytes" where
  "TextEncoder_encode s = map of_nat (concat (map utf8Bytes (scalarValues s)))"

subsection \<open>TextDecoder\<close>

text \<open>
  The UTF-8 decoder, one byte at a time.  Its state is the number of bytes still needed,
  the code point so far and the bounds of the next byte; a step gives the new state and
  the code points it emits.  A byte out of bounds emits U+FFFD and is then read again from
  the initial state; input that ends inside a sequence emits U+FFFD.
\<close>

type_synonym utf8State = "nat \<times> nat \<times> nat \<times> nat"

definition utf8Initial :: utf8State where
  "utf8Initial = (0, 0, 0x80, 0xBF)"

definition utf8Start :: "nat \<Rightarrow> utf8State \<times> nat list" where
  "utf8Start b =
     (if b \<le> 0x7F then (utf8Initial, [b])
      else if 0xC2 \<le> b \<and> b \<le> 0xDF then ((1, b mod 32, 0x80, 0xBF), [])
      else if 0xE0 \<le> b \<and> b \<le> 0xEF
        then ((2, b mod 16, if b = 0xE0 then 0xA0 else 0x80, if b = 0xED then 0x9F else 0xBF), [])
      else if 0xF0 \<le> b \<and> b \<le> 0xF4
        then ((3, b mod 8, if b = 0xF0 then 0x90 else 0x80, if b = 0xF4 then 0x8F else 0xBF), [])
      else (utf8Initial, [0xFFFD]))"

definition utf8Step :: "utf8State \<Rightarrow> nat \<Rightarrow> utf8State \<times> nat list" where
  "utf8Step st b =
     (case st of (needed, cp, lower, upper) \<Rightarrow>
        if needed = 0 then utf8Start b
        else if b < lower \<or> upper < b
          then (case utf8Start b of (st', out) \<Rightarrow> (st', 0xFFFD # out))
        else if needed = 1 then (utf8Initial, [cp * 64 + b mod 64])
        else ((needed - 1, cp * 64 + b mod 64, 0x80, 0xBF), []))"

fun utf8Decode :: "utf8State \<Rightarrow> nat list \<Rightarrow> nat list" where
  "utf8Decode st [] = (if fst st = 0 then [] else [0xFFFD])"
| "utf8Decode st (b # r) = (case utf8Step st b of (st', out) \<Rightarrow> out @ utf8Decode st' r)"

definition utf16Units :: "nat \<Rightarrow> DOMString" where
  "utf16Units cp =
     (if cp < 0x10000 then [of_nat cp]
      else [of_nat (0xD800 + (cp - 0x10000) div 0x400), of_nat (0xDC00 + (cp - 0x10000) mod 0x400)])"

text \<open>
  \<open>new TextDecoder().decode(buffer)\<close>: UTF-8, not fatal, and a byte order mark at the start
  of the input is dropped (\<open>ignoreBOM\<close> is false).
\<close>

definition TextDecoder_decode :: "bytes \<Rightarrow> DOMString" where
  "TextDecoder_decode buffer =
     (let input = map unat buffer;
          input' = (if take 3 input = [0xEF, 0xBB, 0xBF] then drop 3 input else input)
      in concat (map utf16Units (utf8Decode utf8Initial input')))"

subsection \<open>btoa and atob\<close>

definition base64Char :: "nat \<Rightarrow> char" where
  "base64Char i =
     (if i < 26 then char_of (65 + i)
      else if i < 52 then char_of (71 + i)
      else if i < 62 then char_of (i - 4)
      else if i = 62 then CHR ''+'' else CHR ''/'')"

fun btoa :: "nat list \<Rightarrow> string" where
  "btoa [] = []"
| "btoa [a] = [base64Char (a div 4), base64Char ((a mod 4) * 16), CHR ''='', CHR ''='']"
| "btoa [a, b] =
     [base64Char (a div 4), base64Char ((a mod 4) * 16 + b div 16), base64Char ((b mod 16) * 4),
      CHR ''='']"
| "btoa (a # b # c # r) =
     [base64Char (a div 4), base64Char ((a mod 4) * 16 + b div 16),
      base64Char ((b mod 16) * 4 + c div 64), base64Char (c mod 64)] @ btoa r"

text \<open>The value of a character of the alphabet, 64 for any other character.\<close>

definition base64Value :: "char \<Rightarrow> nat" where
  "base64Value c =
     (let n = (of_char c :: nat)
      in if 65 \<le> n \<and> n \<le> 90 then n - 65
         else if 97 \<le> n \<and> n \<le> 122 then n - 71
         else if 48 \<le> n \<and> n \<le> 57 then n + 4
         else if n = 43 then 62
         else if n = 47 then 63
         else 64)"

fun sextetsToBytes :: "nat list \<Rightarrow> nat list" where
  "sextetsToBytes (a # b # c # d # r) =
     [a * 4 + b div 16, (b mod 16) * 16 + c div 4, (c mod 4) * 64 + d] @ sextetsToBytes r"
| "sextetsToBytes [a, b, c] = [a * 4 + b div 16, (b mod 16) * 16 + c div 4]"
| "sextetsToBytes [a, b] = [a * 4 + b div 16]"
| "sextetsToBytes r = []"

definition isAsciiWhitespace :: "char \<Rightarrow> bool" where
  "isAsciiWhitespace c = ((of_char c :: nat) \<in> {9, 10, 12, 13, 32})"

text \<open>
  \<open>atob\<close>, the forgiving base64 decoding: white space is removed, one or two closing
  \<open>=\<close> are removed from a length that is a multiple of 4, and a length of 1 modulo 4 or a
  character outside the alphabet is an error.
\<close>

definition atob :: "string \<Rightarrow> thrown + nat list" where
  "atob s =
     (let s1 = filter (\<lambda>c. \<not> isAsciiWhitespace c) s;
          s2 = (if length s1 mod 4 = 0 \<and> s1 \<noteq> [] \<and> last s1 = CHR ''=''
                then (if butlast s1 \<noteq> [] \<and> last (butlast s1) = CHR ''=''
                      then butlast (butlast s1) else butlast s1)
                else s1)
      in if length s2 mod 4 = 1 \<or> (\<exists>c \<in> set s2. base64Value c = 64)
         then Inl (Error ''InvalidCharacterError'')
         else Inr (sextetsToBytes (map base64Value s2)))"

subsection \<open>encrypt and decrypt\<close>

text \<open>
  \<open>btoa(String.fromCharCode(...buffer))\<close>: the spread passes one argument for each byte of
  the buffer, and the call throws a \<open>RangeError\<close> when they are more than the engine
  accepts.  Otherwise the code units of the string are the bytes.
\<close>

definition bufferToBase64 :: "nat \<Rightarrow> bytes \<Rightarrow> thrown + string" where
  "bufferToBase64 maxArguments buffer =
     (if maxArguments < length buffer then Inl (Error ''RangeError'')
      else Inr (btoa (map unat buffer)))"

definition base64ToBuffer :: "string \<Rightarrow> thrown + bytes" where
  "base64ToBuffer base64 =
     (case atob base64 of Inl e \<Rightarrow> Inl e | Inr codes \<Rightarrow> Inr (map of_nat codes))"

record EncryptedData =
  iv :: string
  data :: string
  salt :: string

text \<open>
  \<open>deriveKey\<close>: PBKDF2 over the fixed key material with the given salt and 100000
  iterations.  \<open>pbkdf2\<close> stands for \<open>importKey\<close> followed by \<open>deriveKey\<close> of the platform.
\<close>

definition keyMaterial :: DOMString where
  "keyMaterial = map (\<lambda>c. of_nat (of_char c)) ''device-derived-key-material''"

definition deriveKey :: "(bytes \<Rightarrow> bytes \<Rightarrow> nat \<Rightarrow> 'key) \<Rightarrow> bytes \<Rightarrow> 'key" where
  "deriveKey pbkdf2 saltBuf = pbkdf2 (TextEncoder_encode keyMaterial) saltBuf 100000"

text \<open>
  \<open>encrypt\<close>, for the random salt and iv it draws; it fails where \<open>bufferToBase64\<close> does,
  and the fields of the result are computed in the order \<open>iv\<close>, \<open>data\<close>, \<open>salt\<close>.
  \<open>decrypt\<close> fails where \<open>atob\<close> or the decryption of the platform does.
\<close>

definition encrypt ::
  "(bytes \<Rightarrow> bytes \<Rightarrow> nat \<Rightarrow> 'key) \<Rightarrow> ('key \<Rightarrow> bytes \<Rightarrow> bytes \<Rightarrow> bytes) \<Rightarrow> nat \<Rightarrow> bytes
     \<Rightarrow> bytes \<Rightarrow> DOMString \<Rightarrow> thrown + EncryptedData"
where
  "encrypt pbkdf2 aesGcmEncrypt maxArguments saltBuf ivBuf plain =
     (let key = deriveKey pbkdf2 saltBuf;
          encodedData = TextEncoder_encode plain;
          encryptedBuffer = aesGcmEncrypt key ivBuf encodedData
      in case bufferToBase64 maxArguments ivBuf of
           Inl e \<Rightarrow> Inl e
         | Inr iv64 \<Rightarrow>
             (case bufferToBase64 maxArguments encryptedBuffer of
                Inl e \<Rightarrow> Inl e
              | Inr data64 \<Rightarrow>
                  (case bufferToBase64 maxArguments saltBuf of
                     Inl e \<Rightarrow> Inl e
                   | Inr salt64 \<Rightarrow> Inr \<lparr>iv = iv64, data = data64, salt = salt64\<rparr>)))"

definition decrypt ::
  "(bytes \<Rightarrow> bytes \<Rightarrow> nat \<Rightarrow> 'key) \<Rightarrow> ('key \<Rightarrow> bytes \<Rightarrow> bytes \<Rightarrow> bytes option) \<Rightarrow> EncryptedData
     \<Rightarrow> thrown + DOMString"
where
  "decrypt pbkdf2 aesGcmDecrypt encrypted =
     (case base64ToBuffer (salt encrypted) of
        Inl e \<Rightarrow> Inl e
      | Inr saltBuf \<Rightarrow>
          (case base64ToBuffer (iv encrypted) of
             Inl e \<Rightarrow> Inl e
           | Inr ivBuf \<Rightarrow>
               (case base64ToBuffer (data encrypted) of
                  Inl e \<Rightarrow> Inl e
                | Inr dataBuf \<Rightarrow>
                    (case aesGcmDecrypt (deriveKey pbkdf2 saltBuf) ivBuf dataBuf of
                       None \<Rightarrow> Inl (Error ''OperationError'')
                     | Some decryptedBuffer \<Rightarrow> Inr (TextDecoder_decode decryptedBuffer)))))"

section \<open>Example inputs\<close>

text \<open>
  A 32-byte stand-in for SHA-256 to run the examples on: 31 zero bytes and the sum of the
  bytes.  The theorems hold for every \<open>digest\<close>; none depends on this one.
\<close>

definition exampleDigest :: "bytes \<Rightarrow> bytes" where
  "exampleDigest bs = replicate 31 0 @ [sum_list bs]"

definition emptyWorld :: World where
  "emptyWorld = \<lparr>models = Map.empty, downloadProgress = Map.empty, dispatched = [], fetched = [], console = []\<rparr>"

definition exampleModel :: ModelMetadata where
  "exampleModel = \<lparr>id' = ''m1'', name = ''Example'', type = llm, version = ''1.0'',
      size' = 1000, quantization = ''Q4'', capabilities = [], license = ''MIT'',
      redistributable = True,
      checksum = ''0000000000000000000000000000000000000000000000000000000000000006'',
      signature = None, url = Some ''https://models.example.com/m1.bin'', isSeed = False\<rparr>"

definition goodStore :: World where
  "goodStore = saveModel exampleModel [1, 2, 3] True emptyWorld"

definition corruptStore :: World where
  "corruptStore = saveModel exampleModel [1, 2, 4] True emptyWorld"

text \<open>Networks that answer every request alike.\<close>

definition completeStream :: "Request \<Rightarrow> FetchResult" where
  "completeStream request =
     Responded \<lparr>resp_status = 200, resp_statusText = ''OK'', resp_contentLength = Some ''3'',
                resp_body = Some ([[1, 2], [3]], EndOfStream)\<rparr>"

definition brokenStream :: "Request \<Rightarrow> FetchResult" where
  "brokenStream request =
     Responded \<lparr>resp_status = 200, resp_statusText = ''OK'', resp_contentLength = Some ''3'',
                resp_body = Some ([[1, 2]], StreamError (Error ''network error''))\<rparr>"

definition noLengthStream :: "Request \<Rightarrow> FetchResult" where
  "noLengthStream request =
     Responded \<lparr>resp_status = 200, resp_statusText = ''OK'', resp_contentLength = None,
                resp_body = Some ([[1, 2], [3]], EndOfStream)\<rparr>"

definition overrunStream :: "Request \<Rightarrow> FetchResult" where
  "overrunStream request =
     Responded \<lparr>resp_status = 200, resp_statusText = ''OK'', resp_contentLength = Some ''2'',
                resp_body = Some ([[1, 2, 3, 0]], EndOfStream)\<rparr>"

definition tenChunks :: "Request \<Rightarrow> FetchResult" where
  "tenChunks request =
     Responded \<lparr>resp_status = 200, resp_statusText = ''OK'', resp_contentLength = Some ''10'',
                resp_body = Some (replicate 10 [1], EndOfStream)\<rparr>"

definition notFound :: "Request \<Rightarrow> FetchResult" where
  "notFound request =
     Responded \<lparr>resp_status = 404, resp_statusText = ''Not Found'', resp_contentLength = None,
                resp_body = None\<rparr>"

section \<open>Auxiliary notions\<close>

text \<open>The \<open>downloading\<close> events the read loop dispatches, from \<open>n\<close> bytes on.\<close>

fun downloadingEvents :: "string \<Rightarrow> number \<Rightarrow> nat \<Rightarrow> bytes list \<Rightarrow> DownloadProgress list" where
  "downloadingEvents mid totalB n [] = []"
| "downloadingEvents mid totalB n (v # rest) =
     \<lparr>modelId = mid, bytesDownloaded = Num (of_nat (n + length v)), totalBytes = totalB,
      percentage = js_mul (js_div (Num (of_nat (n + length v))) totalB) (Num 100),
      status = downloading, error' = None\<rparr>
     # downloadingEvents mid totalB (n + length v) rest"

text \<open>The events dispatched between two worlds.\<close>

definition eventsSince :: "World \<Rightarrow> World \<Rightarrow> DownloadProgress list" where
  "eventsSince w w' = drop (length (dispatched w)) (dispatched w')"

definition terminal :: "DownloadProgress \<Rightarrow> bool" where
  "terminal e = (status e = complete \<or> status e = error)"

text \<open>What a download starts from: the checkpoint's byte count and chunks, if there is one.\<close>

definition startByteOf :: "string \<Rightarrow> World \<Rightarrow> nat" where
  "startByteOf mid w = (case getDownloadProgress mid w of None \<Rightarrow> 0 | Some p \<Rightarrow> p_bytesDownloaded p)"

definition priorChunks :: "string \<Rightarrow> World \<Rightarrow> bytes list" where
  "priorChunks mid w =
     (case getDownloadProgress mid w of None \<Rightarrow> [] | Some p \<Rightarrow> map uint8ArrayOfBlob (p_chunks p))"

definition rangeHeaders :: "nat \<Rightarrow> (string \<times> string) list" where
  "rangeHeaders k = (if k > 0 then [(''Range'', ''bytes='' @ numberToString k @ ''-'')] else [])"

text \<open>The events of the \<open>catch\<close> block and of the two steps after the read loop.\<close>

definition errorEvent :: "ModelMetadata \<Rightarrow> thrown \<Rightarrow> DownloadProgress" where
  "errorEvent metadata e =
     \<lparr>modelId = id' metadata, bytesDownloaded = Num 0, totalBytes = Num (of_nat (size' metadata)),
      percentage = Num 0, status = error, error' = Some (message e)\<rparr>"

definition finalEvent :: "string \<Rightarrow> number \<Rightarrow> status \<Rightarrow> DownloadProgress" where
  "finalEvent mid totalB s =
     \<lparr>modelId = mid, bytesDownloaded = totalB, totalBytes = totalB, percentage = Num 100,
      status = s, error' = None\<rparr>"

text \<open>
  The checkpoint the read loop leaves for the id: with \<open>c\<close> chunks and \<open>n\<close> bytes at the
  start and \<open>inc\<close> chunks read, the loop last saved when the number of chunks was the
  largest multiple of 10 it reached, and what was stored before stays if it reached none.
\<close>

definition checkpointAfter ::
  "string \<Rightarrow> number \<Rightarrow> bytes list \<Rightarrow> nat \<Rightarrow> bytes list \<Rightarrow> ProgressRecord option \<Rightarrow> ProgressRecord option"
where
  "checkpointAfter mid totalB c n inc prior =
     (let m = ((length c + length inc) div 10) * 10
      in if length c < m
         then Some \<lparr>p_modelId = mid,
                    p_bytesDownloaded = n + sum_list (map length (take (m - length c) inc)),
                    p_totalBytes = totalB, p_chunks = c @ take (m - length c) inc\<rparr>
         else prior)"

text \<open>The decimal digits.\<close>

definition isDec :: "char \<Rightarrow> bool" where
  "isDec c = (\<exists>d<10. c = decDigits ! d)"

text \<open>The world a download of ten chunks leaves behind when its checksum does not match.\<close>

definition checkpointed :: World where
  "checkpointed = fst (downloadModelInBackground exampleDigest tenChunks exampleModel emptyWorld)"

text \<open>A device that recommends the given model, and a platform with little room left.\<close>

definition capsFor :: "string \<Rightarrow> DeviceCapabilities" where
  "capsFor m = \<lparr>hasWebAssembly = True, hasWebGPU = False, availableMemoryGB = 4, cpuCores = 4,
                isMobile = False, recommendedModel = m\<rparr>"

definition littleRoom :: "(thrown + StorageEstimate) option" where
  "littleRoom = Some (Inr \<lparr>quota = Some 500000, usage = Some 0\<rparr>)"

text \<open>The world after a download that succeeds.\<close>

definition downloaded :: World where
  "downloaded = fst (downloadModelInBackground exampleDigest completeStream exampleModel emptyWorld)"

text \<open>The storage headroom in bytes: quota minus usage, each 0 when the estimate lacks it.\<close>

definition headroom :: "StorageEstimate \<Rightarrow> int" where
  "headroom e = int (case quota e of None \<Rightarrow> 0 | Some q \<Rightarrow> q)
                - int (case usage e of None \<Rightarrow> 0 | Some u \<Rightarrow> u)"

text \<open>Nothing of a transfer is visible between two worlds: no request, no event, no write.\<close>

definition noTransfer :: "World \<Rightarrow> World \<Rightarrow> bool" where
  "noTransfer w w' = (fetched w' = fetched w \<and> dispatched w' = dispatched w
                      \<and> models w' = models w \<and> downloadProgress w' = downloadProgress w)"

text \<open>
  The worlds the model manager can bring about, from a world whose models store is empty,
  by the functions that write to the store and by the ones that call them.
\<close>

inductive reachable :: "(bytes \<Rightarrow> bytes) \<Rightarrow> World \<Rightarrow> bool" for digest :: "bytes \<Rightarrow> bytes" where
  fresh: "models w = Map.empty \<Longrightarrow> reachable digest w"
| seed: "reachable digest w \<Longrightarrow> loadSeedModel digest net metadata w = (w', r)
           \<Longrightarrow> reachable digest w'"
| seeds: "reachable digest w \<Longrightarrow> ensureSeedModels digest net db w = (w', r)
           \<Longrightarrow> reachable digest w'"
| download: "reachable digest w \<Longrightarrow> downloadModelInBackground digest net metadata w = (w', r)
           \<Longrightarrow> reachable digest w'"
| background: "reachable digest w
           \<Longrightarrow> startBackgroundModelFetch digest net db estimate caps w = (w', r)
           \<Longrightarrow> reachable digest w'"
| initialize: "reachable digest w
           \<Longrightarrow> initializeModelManager digest net db estimate caps w = (w', r)
           \<Longrightarrow> reachable digest w'"

text \<open>Every record of the models store is marked verified and its blob verifies.\<close>

definition verifiedStore :: "(bytes \<Rightarrow> bytes) \<Rightarrow> World \<Rightarrow> bool" where
  "verifiedStore digest w =
     (\<forall>mid r. models w mid = Some r \<longrightarrow>
        r_verified r \<and> r_id r = mid \<and> id' (r_metadata r) = mid
        \<and> verifyChecksum digest (r_blob r) (checksum (r_metadata r)))"

text \<open>The second model of the manifest, \<open>llm-small-q4\<close>.\<close>

definition smallModel :: ModelMetadata where
  "smallModel = DEFAULT_MANIFEST_models ! 1"

text \<open>
  Stand-ins for the platform's key derivation and cipher to run the examples on: the key
  is the salt, encryption adds 1 to every byte and appends a tag byte, decryption checks
  the tag.  The theorems hold for every cipher whose decryption undoes its encryption.
\<close>

definition exampleKdf :: "bytes \<Rightarrow> bytes \<Rightarrow> nat \<Rightarrow> bytes" where
  "exampleKdf password saltBuf iterations = saltBuf"

definition exampleEncrypt :: "bytes \<Rightarrow> bytes \<Rightarrow> bytes \<Rightarrow> bytes" where
  "exampleEncrypt key ivBuf plain = map (\<lambda>b. b + 1) plain @ [0xAA]"

definition exampleDecrypt :: "bytes \<Rightarrow> bytes \<Rightarrow> bytes \<Rightarrow> bytes option" where
  "exampleDecrypt key ivBuf cipher =
     (if cipher \<noteq> [] \<and> last cipher = 0xAA then Some (map (\<lambda>b. b - 1) (butlast cipher)) else None)"

text \<open>A string has no surrogate outside a pair of a high one and a low one.\<close>

fun wellFormed :: "DOMString \<Rightarrow> bool" where
  "wellFormed [] = True"
| "wellFormed [c] = (\<not> isHighSurrogate c \<and> \<not> isLowSurrogate c)"
| "wellFormed (c # d # r) =
     (if isHighSurrogate c then isLowSurrogate d \<and> wellFormed r
      else \<not> isLowSurrogate c \<and> wellFormed (d # r))"

text \<open>A Unicode scalar value: a code point that is not a surrogate.\<close>

definition isScalar :: "nat \<Rightarrow> bool" where
  "isScalar cp = (cp < 0x110000 \<and> \<not> (0xD800 \<le> cp \<and> cp \<le> 0xDFFF))"

text \<open>The values of the characters that \<open>btoa\<close> writes before the padding.\<close>

fun sextets :: "nat list \<Rightarrow> nat list" where
  "sextets [] = []"
| "sextets [a] = [a div 4, (a mod 4) * 16]"
| "sextets [a, b] = [a div 4, (a mod 4) * 16 + b div 16, (b mod 16) * 4]"
| "sextets (a # b # c # r) =
     [a div 4, (a mod 4) * 16 + b div 16, (b mod 16) * 4 + c div 64, c mod 64] @ sextets r"

text \<open>\<open>decrypt(encrypt(plain))\<close>: the error of \<open>encrypt\<close>, or what \<open>decrypt\<close> makes of its result.\<close>

definition decryptEncrypt ::
  "(bytes \<Rightarrow> bytes \<Rightarrow> nat \<Rightarrow> 'key) \<Rightarrow> ('key \<Rightarrow> bytes \<Rightarrow> bytes \<Rightarrow> bytes)
     \<Rightarrow> ('key \<Rightarrow> bytes \<Rightarrow> bytes \<Rightarrow> bytes option) \<Rightarrow> nat \<Rightarrow> bytes \<Rightarrow> bytes \<Rightarrow> DOMString
     \<Rightarrow> thrown + DOMString"
where
  "decryptEncrypt kdf aesGcmEncrypt aesGcmDecrypt maxArguments saltBuf ivBuf plain =
     (case encrypt kdf aesGcmEncrypt maxArguments saltBuf ivBuf plain of
        Inl e \<Rightarrow> Inl e
      | Inr encrypted \<Rightarrow> decrypt kdf aesGcmDecrypt encrypted)"

text \<open>A salt of 16 bytes, an iv of 12 bytes and an engine that accepts 125000 arguments.\<close>

definition exampleSalt :: bytes where
  "exampleSalt = [1, 2, 3, 4, 5, 6, 7, 8, 9, 10, 11, 12, 13, 14, 15, 16]"

definition exampleIv :: bytes where
  "exampleIv = [1, 2, 3, 4, 5, 6, 7, 8, 9, 10, 11, 12]"

definition exampleLimit :: nat where
  "exampleLimit = 125000"

section \<open>The checksum gate\<close>













section \<open>Hand-off to inference\<close>

text \<open>
  C4.  \<open>loadModelForInference\<close> returns a blob exactly when the store holds a record for
  the id and the record's blob verifies against the checksum of the record's metadata, and
  then it returns that blob.  With no record it fails with the not-found error; with a
  record whose blob does not verify it fails with the integrity error.
\<close>

theorem loadModelForInference_verifies:
  "(\<forall>b. loadModelForInference digest mid w = Inr b \<longleftrightarrow>
          (\<exists>r. models w mid = Some r \<and> r_blob r = b
               \<and> verifyChecksum digest b (checksum (r_metadata r))))
   \<and> (models w mid = None \<longrightarrow>
          loadModelForInference digest mid w = Inl (Error (''Model not found: '' @ mid)))
   \<and> (\<forall>r. models w mid = Some r
            \<and> \<not> verifyChecksum digest (r_blob r) (checksum (r_metadata r)) \<longrightarrow>
          loadModelForInference digest mid w = Inl (Error (''Model integrity check failed: '' @ mid)))"
  by (auto simp: loadModelForInference_def getModel_def getModelMetadata_def split: option.splits)

theorem loadModelForInference_verifies_witness:
  "loadModelForInference exampleDigest ''m1'' goodStore = Inr [1, 2, 3]
   \<and> loadModelForInference exampleDigest ''m1'' emptyWorld = Inl (Error ''Model not found: m1'')
   \<and> loadModelForInference exampleDigest ''m1'' corruptStore
       = Inl (Error ''Model integrity check failed: m1'')"
proof -
  let ?good = "\<lparr>r_id = ''m1'', r_metadata = exampleModel, r_blob = [1, 2, 3], r_verified = True\<rparr>"
  let ?bad = "\<lparr>r_id = ''m1'', r_metadata = exampleModel, r_blob = [1, 2, 4], r_verified = True\<rparr>"
  have g: "models goodStore ''m1'' = Some ?good"
    by (simp add: goodStore_def saveModel_def exampleModel_def emptyWorld_def)
  have b: "models corruptStore ''m1'' = Some ?bad"
    by (simp add: corruptStore_def saveModel_def exampleModel_def emptyWorld_def)
  have e: "models emptyWorld ''m1'' = None"
    by (simp add: emptyWorld_def)
  have vg: "verifyChecksum exampleDigest [1, 2, 3] (checksum exampleModel)"
    by code_simp
  have vb: "\<not> verifyChecksum exampleDigest [1, 2, 4] (checksum exampleModel)"
    by code_simp
  have 1: "loadModelForInference exampleDigest ''m1'' goodStore = Inr [1, 2, 3]"
    using loadModelForInference_verifies [of exampleDigest "''m1''" goodStore] g vg by simp
  have 2: "loadModelForInference exampleDigest ''m1'' emptyWorld = Inl (Error ''Model not found: m1'')"
    using loadModelForInference_verifies [of exampleDigest "''m1''" emptyWorld] e by simp
  have 3: "loadModelForInference exampleDigest ''m1'' corruptStore
             = Inl (Error ''Model integrity check failed: m1'')"
    using loadModelForInference_verifies [of exampleDigest "''m1''" corruptStore] b vb by simp
  from 1 2 3 show ?thesis by simp
qed

section \<open>Reading the declared length\<close>

lemma decDigit_props:
  assumes "d < 10"
  shows "digitValue (decDigits ! d) = d" and "\<not> isWhiteSpace (decDigits ! d)"
    and "decDigits ! d \<noteq> CHR ''-''" and "decDigits ! d \<noteq> CHR ''+''"
    and "decDigits ! d \<noteq> CHR ''x''" and "decDigits ! d \<noteq> CHR ''X''"
proof -
  from assms have "d \<in> {0, 1, 2, 3, 4, 5, 6, 7, 8, 9}" by auto
  then show "digitValue (decDigits ! d) = d" and "\<not> isWhiteSpace (decDigits ! d)"
    and "decDigits ! d \<noteq> CHR ''-''" and "decDigits ! d \<noteq> CHR ''+''"
    and "decDigits ! d \<noteq> CHR ''x''" and "decDigits ! d \<noteq> CHR ''X''"
    by (auto simp: decDigits_def digitValue_def isWhiteSpace_def)
qed

lemma numberToString_digits: "\<forall>c \<in> set (numberToString n). isDec c"
proof (induction n rule: numberToString.induct)
  case (1 n)
  show ?case
  proof (cases "n < 10")
    case True
    then show ?thesis by (auto simp: numberToString.simps [of n] isDec_def)
  next
    case False
    have "n mod 10 < 10" by simp
    then have "isDec (decDigits ! (n mod 10))" unfolding isDec_def by blast
    with False 1 show ?thesis by (auto simp: numberToString.simps [of n])
  qed
qed

lemma numberToString_nonempty: "numberToString n \<noteq> []"
  by (cases "n < 10") (simp_all add: numberToString.simps [of n])

lemma digitsValue_snoc: "digitsValue r (ds @ [c]) = digitsValue r ds * r + digitValue c"
  by (simp add: digitsValue_def)

lemma digitsValue_numberToString: "digitsValue 10 (numberToString n) = n"
proof (induction n rule: numberToString.induct)
  case (1 n)
  show ?case
  proof (cases "n < 10")
    case True
    then show ?thesis
      by (simp add: numberToString.simps [of n] digitsValue_def decDigit_props)
  next
    case False
    have "n mod 10 < 10" by simp
    with False 1 show ?thesis
      by (simp add: numberToString.simps [of n] digitsValue_snoc decDigit_props)
  qed
qed

lemma parseInt_decimal:
  assumes ne: "s \<noteq> []" and all: "\<forall>c \<in> set s. isDec c"
  shows "parseInt s = Num (of_nat (digitsValue 10 s))"
proof -
  have p: "\<not> isWhiteSpace c \<and> c \<noteq> CHR ''-'' \<and> c \<noteq> CHR ''+'' \<and> c \<noteq> CHR ''x'' \<and> c \<noteq> CHR ''X''
           \<and> digitValue c < 10" if "isDec c" for c
    using that by (auto simp: isDec_def decDigit_props)
  from ne obtain c r where s: "s = c # r" by (cases s) auto
  with all have c: "isDec c" and r: "\<forall>x \<in> set r. isDec x" by auto
  have d: "dropWhile isWhiteSpace s = s" using s p [OF c] by simp
  have h: "take 2 s \<noteq> ''0x''" "take 2 s \<noteq> ''0X''"
    using s r p by (cases r; auto)+
  have t: "takeWhile (\<lambda>c. digitValue c < 10) s = s"
    using all p by (auto intro: takeWhile_eq_all_conv [THEN iffD2])
  have sg: "(case s of c # r \<Rightarrow> c = CHR ''-'' | [] \<Rightarrow> False) = False"
    using s p [OF c] by simp
  have s2: "(case s of c # r \<Rightarrow> if c = CHR ''-'' \<or> c = CHR ''+'' then r else s | [] \<Rightarrow> s) = s"
    using s p [OF c] by simp
  show ?thesis
    unfolding parseInt_def d Let_def sg s2 using h ne by (simp add: t)
qed

lemma parseInt_numberToString: "parseInt (numberToString n) = Num (of_nat n)"
  using parseInt_decimal [OF numberToString_nonempty numberToString_digits, of n]
  by (simp add: digitsValue_numberToString)

lemma totalBytesOf_declared:
  "resp_contentLength response = Some (numberToString n) \<Longrightarrow>
     totalBytesOf response k = Num (of_nat (n + k))"
  by (simp add: totalBytesOf_def parseInt_numberToString numberToString_nonempty)

lemma parseInt_zero: "parseInt ''0'' = Num 0"
  by (simp add: parseInt_def digitsValue_def digitValue_def isWhiteSpace_def)

lemma totalBytesOf_undeclared:
  "resp_contentLength response = None \<Longrightarrow> totalBytesOf response k = Num (of_nat k)"
  by (simp add: totalBytesOf_def parseInt_zero)

section \<open>The read loop\<close>

lemma readLoop_chunks:
  "fst (readLoop mid t inc (c, n, w)) = c @ inc"
  by (induction inc arbitrary: c n w) (simp_all add: Let_def)

lemma readLoop_bytes:
  "fst (snd (readLoop mid t inc (c, n, w))) = n + sum_list (map length inc)"
  by (induction inc arbitrary: c n w) (simp_all add: Let_def)

lemma readLoop_dispatched:
  "dispatched (snd (snd (readLoop mid t inc (c, n, w)))) = dispatched w @ downloadingEvents mid t n inc"
  by (induction inc arbitrary: c n w)
     (simp_all add: Let_def emitDownloadProgress_def saveDownloadProgress_def)

lemma readLoop_models:
  "models (snd (snd (readLoop mid t inc (c, n, w)))) = models w"
  by (induction inc arbitrary: c n w)
     (simp_all add: Let_def emitDownloadProgress_def saveDownloadProgress_def)

lemma readLoop_fetched:
  "fetched (snd (snd (readLoop mid t inc (c, n, w)))) = fetched w"
  by (induction inc arbitrary: c n w)
     (simp_all add: Let_def emitDownloadProgress_def saveDownloadProgress_def)

lemma readLoop_other:
  "k \<noteq> mid \<Longrightarrow> downloadProgress (snd (snd (readLoop mid t inc (c, n, w)))) k = downloadProgress w k"
  by (induction inc arbitrary: c n w)
     (simp_all add: Let_def emitDownloadProgress_def saveDownloadProgress_def)

lemmas readLoop_simps = readLoop_chunks readLoop_bytes readLoop_dispatched readLoop_models
  readLoop_fetched

lemma mult10_reached:
  fixes a b :: nat
  assumes "a mod 10 = 0"
  shows "a \<le> ((a + b) div 10) * 10"
proof -
  from assms have "10 dvd a" by (simp add: dvd_eq_mod_eq_0)
  then obtain q where q: "a = 10 * q" by (auto elim: dvdE)
  have "(10 * q + b) div 10 = q + b div 10" by simp
  with q show ?thesis by simp
qed

lemma mult10_not_reached:
  fixes a x :: nat
  assumes "a mod 10 \<noteq> 0"
  shows "(x div 10) * 10 \<noteq> a"
proof
  assume "(x div 10) * 10 = a"
  then have "a mod 10 = 0" by auto
  with assms show False by simp
qed


lemma readLoop_checkpoint:
  "downloadProgress (snd (snd (readLoop mid t inc (c, n, w)))) mid
     = checkpointAfter mid t c n inc (downloadProgress w mid)"
proof (induction inc arbitrary: c n w)
  case Nil
  have "\<not> length c < (length c div 10) * 10" by (simp add: not_less)
  then show ?case by (simp add: checkpointAfter_def Let_def)
next
  case (Cons v rest)
  let ?m = "((length c + length (v # rest)) div 10) * 10"
  let ?c1 = "c @ [v]"
  have m1: "((length ?c1 + length rest) div 10) * 10 = ?m" by simp
  show ?case
  proof (cases "length ?c1 mod 10 = 0")
    case True
    then have ge: "length ?c1 \<le> ?m"
      using mult10_reached [of "length ?c1" "length rest"] by simp
    show ?thesis
    proof (cases "length ?c1 < ?m")
      case lt: True
      then have t: "take (?m - length c) (v # rest) = v # take (?m - length ?c1) rest"
        by (simp add: take_Cons') 
      from lt True show ?thesis
        using Cons.IH [of ?c1 "n + length v"] t m1
        by (simp add: Let_def checkpointAfter_def emitDownloadProgress_def saveDownloadProgress_def)
    next
      case nlt: False
      with ge have eq: "?m = length ?c1" by simp
      then have "?m - length c = 1" by simp
      then have t: "take (?m - length c) (v # rest) = [v]" by simp
      from nlt True eq show ?thesis
        using Cons.IH [of ?c1 "n + length v"] t m1
        by (simp add: Let_def checkpointAfter_def emitDownloadProgress_def saveDownloadProgress_def)
    qed
  next
    case False
    show ?thesis
    proof (cases "length ?c1 < ?m")
      case lt: True
      then have t: "take (?m - length c) (v # rest) = v # take (?m - length ?c1) rest"
        by (simp add: take_Cons')
      from lt False show ?thesis
        using Cons.IH [of ?c1 "n + length v"] t m1
        by (simp add: Let_def checkpointAfter_def emitDownloadProgress_def saveDownloadProgress_def)
    next
      case nlt: False
      from False have "?m \<noteq> length ?c1"
        using mult10_not_reached [of "length ?c1" "length c + length (v # rest)"] by simp
      with nlt have "\<not> length c < ?m" by simp
      with nlt False show ?thesis
        using Cons.IH [of ?c1 "n + length v"] m1
        by (simp add: Let_def checkpointAfter_def emitDownloadProgress_def saveDownloadProgress_def)
    qed
  qed
qed

section \<open>The outcome of a download, case by case\<close>

lemma try_outcome:
  fixes metadata u w digest net
  defines "mid \<equiv> id' metadata"
  defines "k \<equiv> startByteOf mid w"
  defines "request \<equiv> \<lparr>req_url = u, req_headers = rangeHeaders k\<rparr>"
  assumes run: "downloadModelInBackground_try digest net metadata u w = (w1, r)"
  shows "fetched w1 = fetched w @ [request]"
    and "net request = Rejected e \<Longrightarrow>
           r = Inl e \<and> dispatched w1 = dispatched w \<and> models w1 = models w
           \<and> downloadProgress w1 = downloadProgress w"
    and "net request = Responded response \<Longrightarrow> \<not> ok response \<Longrightarrow>
         resp_status response \<noteq> 206 \<Longrightarrow>
           r = Inl (Error (''Download failed: '' @ resp_statusText response))
           \<and> dispatched w1 = dispatched w \<and> models w1 = models w
           \<and> downloadProgress w1 = downloadProgress w"
    and "net request = Responded response \<Longrightarrow> ok response \<or> resp_status response = 206 \<Longrightarrow>
         resp_body response = None \<Longrightarrow>
           r = Inl (Error ''Response body is not readable'')
           \<and> dispatched w1 = dispatched w \<and> models w1 = models w
           \<and> downloadProgress w1 = downloadProgress w"
    and "net request = Responded response \<Longrightarrow> ok response \<or> resp_status response = 206 \<Longrightarrow>
         resp_body response = Some (incoming, StreamError e) \<Longrightarrow>
           r = Inl e
           \<and> dispatched w1
                 = dispatched w @ downloadingEvents mid (totalBytesOf response k) k incoming
           \<and> models w1 = models w
           \<and> downloadProgress w1 mid
                 = checkpointAfter mid (totalBytesOf response k) (priorChunks mid w) k incoming
                     (downloadProgress w mid)"
    and "net request = Responded response \<Longrightarrow> ok response \<or> resp_status response = 206 \<Longrightarrow>
         resp_body response = Some (incoming, EndOfStream) \<Longrightarrow>
         \<not> verifyChecksum digest (concat (priorChunks mid w @ incoming)) (checksum metadata) \<Longrightarrow>
           r = Inl (Error (''Checksum verification failed for '' @ mid))
           \<and> dispatched w1
                 = dispatched w @ downloadingEvents mid (totalBytesOf response k) k incoming
                   @ [finalEvent mid (totalBytesOf response k) verifying]
           \<and> models w1 = models w
           \<and> downloadProgress w1 mid
                 = checkpointAfter mid (totalBytesOf response k) (priorChunks mid w) k incoming
                     (downloadProgress w mid)"
    and "net request = Responded response \<Longrightarrow> ok response \<or> resp_status response = 206 \<Longrightarrow>
         resp_body response = Some (incoming, EndOfStream) \<Longrightarrow>
         verifyChecksum digest (concat (priorChunks mid w @ incoming)) (checksum metadata) \<Longrightarrow>
           r = Inr ()
           \<and> dispatched w1
                 = dispatched w @ downloadingEvents mid (totalBytesOf response k) k incoming
                   @ [finalEvent mid (totalBytesOf response k) verifying,
                      finalEvent mid (totalBytesOf response k) complete]
           \<and> models w1 = (models w)(mid \<mapsto> \<lparr>r_id = mid, r_metadata = metadata,
                 r_blob = concat (priorChunks mid w @ incoming), r_verified = True\<rparr>)
           \<and> downloadProgress w1 mid = None"
  using run
  unfolding downloadModelInBackground_try_def mid_def k_def request_def startByteOf_def
    priorChunks_def rangeHeaders_def finalEvent_def fetch_def
  by (auto simp: Let_def case_prod_beta readLoop_simps readLoop_checkpoint consoleOut_def
      emitDownloadProgress_def saveModel_def clearDownloadProgress_def getDownloadProgress_def
      split: option.splits FetchResult.splits StreamEnd.splits if_splits)

text \<open>The \<open>catch\<close> block adds the error event and changes neither store.\<close>

lemma catch_outcome:
  assumes "url metadata = Some u" and "u \<noteq> []"
    and "downloadModelInBackground digest net metadata w = (w', r)"
  shows "\<exists>w1. downloadModelInBackground_try digest net metadata u w = (w1, r)
           \<and> models w' = models w1 \<and> downloadProgress w' = downloadProgress w1
           \<and> fetched w' = fetched w1
           \<and> dispatched w' = dispatched w1
                 @ (case r of Inl e \<Rightarrow> [errorEvent metadata e] | Inr fin \<Rightarrow> [])"
  using assms
  by (auto simp: downloadModelInBackground_def errorEvent_def emitDownloadProgress_def
      consoleOut_def split: prod.splits sum.splits)

section \<open>The events of one attempt\<close>

lemma downloadingEvents_fields:
  "e \<in> set (downloadingEvents mid t n inc) \<Longrightarrow>
     status e = downloading \<and> totalBytes e = t \<and> modelId e = mid
     \<and> percentage e = js_mul (js_div (bytesDownloaded e) (totalBytes e)) (Num 100)"
  by (induction inc arbitrary: n) auto

lemma downloadingEvents_bytes:
  "e \<in> set (downloadingEvents mid t n inc) \<Longrightarrow> \<exists>b. n \<le> b \<and> bytesDownloaded e = Num (of_nat b)"
proof (induction inc arbitrary: n)
  case Nil
  then show ?case by simp
next
  case (Cons v rest)
  from Cons.prems consider
    (head) "bytesDownloaded e = Num (of_nat (n + length v))"
    | (tail) "e \<in> set (downloadingEvents mid t (n + length v) rest)"
    by auto
  then show ?case
  proof cases
    case head
    then show ?thesis by (intro exI [of _ "n + length v"]) simp
  next
    case tail
    from Cons.IH [OF tail] obtain b where "n + length v \<le> b" "bytesDownloaded e = Num (of_nat b)"
      by blast
    then show ?thesis by (intro exI [of _ b]) simp
  qed
qed

lemma downloadingEvents_sorted:
  "sorted_wrt js_le (map bytesDownloaded (downloadingEvents mid t n inc))"
proof (induction inc arbitrary: n)
  case Nil
  then show ?case by simp
next
  case (Cons v rest)
  have "js_le (Num (of_nat (n + length v))) (bytesDownloaded e)"
    if "e \<in> set (downloadingEvents mid t (n + length v) rest)" for e
    using downloadingEvents_bytes [OF that] by auto
  with Cons.IH [of "n + length v"] show ?case by auto
qed

lemma downloadingEvents_filter:
  "filter (\<lambda>e. status e = downloading) (downloadingEvents mid t n inc) = downloadingEvents mid t n inc"
  by (rule filter_True) (auto dest: downloadingEvents_fields)

lemma downloadingEvents_not_terminal:
  "e \<in> set (downloadingEvents mid t n inc) \<Longrightarrow> \<not> terminal e"
  by (auto simp: terminal_def dest: downloadingEvents_fields)

text \<open>The events of one attempt: the downloading events, then one of three endings.\<close>

lemma download_shape:
  assumes u: "url metadata = Some u" "u \<noteq> []"
    and run: "downloadModelInBackground digest net metadata w = (w', r)"
  shows "\<exists>t inc tl. dispatched w' = dispatched w
             @ downloadingEvents (id' metadata) t (startByteOf (id' metadata) w) inc @ tl
           \<and> ((\<exists>e. tl = [errorEvent metadata e] \<and> r = Inl e)
              \<or> (\<exists>e. tl = [finalEvent (id' metadata) t verifying, errorEvent metadata e] \<and> r = Inl e)
              \<or> (tl = [finalEvent (id' metadata) t verifying, finalEvent (id' metadata) t complete]
                  \<and> r = Inr ()))"
proof -
  let ?mid = "id' metadata"
  let ?k = "startByteOf ?mid w"
  let ?request = "\<lparr>req_url = u, req_headers = rangeHeaders ?k\<rparr>"
  from catch_outcome [OF u run] obtain w1 where
    tr: "downloadModelInBackground_try digest net metadata u w = (w1, r)"
    and d: "dispatched w' = dispatched w1
              @ (case r of Inl e \<Rightarrow> [errorEvent metadata e] | Inr fin \<Rightarrow> [])"
    by blast
  note o = try_outcome [OF tr]
  have empty: "downloadingEvents ?mid NaN ?k [] = []" by simp
  show ?thesis
  proof (cases "net ?request")
    case (Rejected e)
    from o(2) [OF this] d empty show ?thesis
      by (intro exI [of _ NaN] exI [of _ "[]"] exI [of _ "[errorEvent metadata e]"]) auto
  next
    case (Responded response)
    show ?thesis
    proof (cases "ok response \<or> resp_status response = 206")
      case False
      with o(3) [OF Responded] d empty show ?thesis
        by (intro exI [of _ NaN] exI [of _ "[]"]
              exI [of _ "[errorEvent metadata (Error (''Download failed: '' @ resp_statusText response))]"])
           auto
    next
      case True
      show ?thesis
      proof (cases "resp_body response")
        case None
        from o(4) [OF Responded True None] d empty show ?thesis
          by (intro exI [of _ NaN] exI [of _ "[]"]
                exI [of _ "[errorEvent metadata (Error ''Response body is not readable'')]"])
             auto
      next
        case (Some body)
        obtain incoming ending where body: "body = (incoming, ending)" by (cases body)
        show ?thesis
        proof (cases ending)
          case (StreamError e)
          from o(5) [OF Responded True, of incoming e] Some body StreamError d show ?thesis
            by (intro exI [of _ "totalBytesOf response ?k"] exI [of _ incoming]
                  exI [of _ "[errorEvent metadata e]"]) auto
        next
          case EndOfStream
          show ?thesis
          proof (cases "verifyChecksum digest (concat (priorChunks ?mid w @ incoming)) (checksum metadata)")
            case False
            from o(6) [OF Responded True _ False] Some body EndOfStream d show ?thesis
              by (intro exI [of _ "totalBytesOf response ?k"] exI [of _ incoming]
                    exI [of _ "[finalEvent ?mid (totalBytesOf response ?k) verifying,
                               errorEvent metadata (Error (''Checksum verification failed for '' @ ?mid))]"])
                 auto
          next
            case v: True
            from o(7) [OF Responded True _ v] Some body EndOfStream d show ?thesis
              by (intro exI [of _ "totalBytesOf response ?k"] exI [of _ incoming]
                    exI [of _ "[finalEvent ?mid (totalBytesOf response ?k) verifying,
                               finalEvent ?mid (totalBytesOf response ?k) complete]"])
                 auto
          qed
        qed
      qed
    qed
  qed
qed

lemma eventsSince_append: "dispatched w' = dispatched w @ evs \<Longrightarrow> eventsSince w w' = evs"
  by (simp add: eventsSince_def)

section \<open>Checksum mismatch\<close>

text \<open>
  C1, as the code has it.  When the assembled bytes fail verification, the download stores
  no blob (the models store is unchanged, so a model that was not ready is still not
  ready), dispatches the \<open>error\<close> event last and returns the failure.  It does not delete
  the download state: the store holds the last checkpoint the read loop wrote, or what was
  there before if the loop wrote none, so a state that existed before still exists.
\<close>

theorem checksum_mismatch_outcome:
  assumes u: "url metadata = Some u" "u \<noteq> []"
    and net: "net \<lparr>req_url = u, req_headers = rangeHeaders (startByteOf (id' metadata) w)\<rparr>
                = Responded response"
    and acc: "ok response \<or> resp_status response = 206"
    and body: "resp_body response = Some (incoming, EndOfStream)"
    and bad: "\<not> verifyChecksum digest (concat (priorChunks (id' metadata) w @ incoming))
                 (checksum metadata)"
    and run: "downloadModelInBackground digest net metadata w = (w', r)"
  shows "r = Inl (Error (''Checksum verification failed for '' @ id' metadata))
     \<and> models w' = models w
     \<and> isModelReady (id' metadata) w' = isModelReady (id' metadata) w
     \<and> eventsSince w w' \<noteq> []
     \<and> last (eventsSince w w')
         = errorEvent metadata (Error (''Checksum verification failed for '' @ id' metadata))
     \<and> (\<forall>e \<in> set (butlast (eventsSince w w')). \<not> terminal e)
     \<and> getDownloadProgress (id' metadata) w'
         = checkpointAfter (id' metadata) (totalBytesOf response (startByteOf (id' metadata) w))
             (priorChunks (id' metadata) w) (startByteOf (id' metadata) w) incoming
             (getDownloadProgress (id' metadata) w)
     \<and> (getDownloadProgress (id' metadata) w \<noteq> None \<longrightarrow>
           getDownloadProgress (id' metadata) w' \<noteq> None)"
proof -
  let ?mid = "id' metadata"
  let ?k = "startByteOf ?mid w"
  let ?t = "totalBytesOf response ?k"
  let ?D = "downloadingEvents ?mid ?t ?k incoming"
  let ?err = "Error (''Checksum verification failed for '' @ ?mid)"
  from catch_outcome [OF u run] obtain w1 where
    tr: "downloadModelInBackground_try digest net metadata u w = (w1, r)"
    and m: "models w' = models w1" and p: "downloadProgress w' = downloadProgress w1"
    and d: "dispatched w' = dispatched w1
              @ (case r of Inl e \<Rightarrow> [errorEvent metadata e] | Inr fin \<Rightarrow> [])"
    by blast
  from try_outcome(6) [OF tr net acc body bad]
  have r: "r = Inl ?err"
    and d1: "dispatched w1 = dispatched w @ ?D @ [finalEvent ?mid ?t verifying]"
    and m1: "models w1 = models w"
    and p1: "downloadProgress w1 ?mid
               = checkpointAfter ?mid ?t (priorChunks ?mid w) ?k incoming (downloadProgress w ?mid)"
    by simp_all
  have ev: "eventsSince w w' = ?D @ [finalEvent ?mid ?t verifying, errorEvent metadata ?err]"
    using d d1 r by (intro eventsSince_append) simp
  have nt: "\<forall>e \<in> set ?D. \<not> terminal e"
    by (auto dest: downloadingEvents_not_terminal)
  have keep: "checkpointAfter ?mid ?t (priorChunks ?mid w) ?k incoming (downloadProgress w ?mid) \<noteq> None"
    if "downloadProgress w ?mid \<noteq> None"
    using that by (simp add: checkpointAfter_def Let_def)
  show ?thesis
    using r m m1 p p1 nt keep unfolding ev
    by (simp add: isModelReady_def getDownloadProgress_def butlast_append finalEvent_def
        terminal_def)
qed

theorem checksum_mismatch_outcome_witness:
  "(let w' = fst (downloadModelInBackground exampleDigest tenChunks exampleModel emptyWorld)
    in url exampleModel = Some ''https://models.example.com/m1.bin''
       \<and> \<not> verifyChecksum exampleDigest (concat (replicate 10 [1])) (checksum exampleModel)
       \<and> snd (downloadModelInBackground exampleDigest tenChunks exampleModel emptyWorld)
           = Inl (Error ''Checksum verification failed for m1'')
       \<and> models w' = models emptyWorld
       \<and> \<not> isModelReady ''m1'' w'
       \<and> status (last (eventsSince emptyWorld w')) = error)"
proof -
  let ?out = "downloadModelInBackground exampleDigest tenChunks exampleModel emptyWorld"
  let ?response = "\<lparr>resp_status = 200, resp_statusText = ''OK'', resp_contentLength = Some ''10'',
                resp_body = Some (replicate 10 [1], EndOfStream)\<rparr>"
  have u: "url exampleModel = Some ''https://models.example.com/m1.bin''"
    by (simp add: exampleModel_def)
  have ne: "''https://models.example.com/m1.bin'' \<noteq> []" by simp
  have net: "tenChunks \<lparr>req_url = ''https://models.example.com/m1.bin'',
               req_headers = rangeHeaders (startByteOf (id' exampleModel) emptyWorld)\<rparr>
               = Responded ?response"
    by (simp add: tenChunks_def)
  have acc: "ok ?response \<or> resp_status ?response = 206" by (simp add: ok_def)
  have body: "resp_body ?response = Some (replicate 10 [1], EndOfStream)" by simp
  have pc: "priorChunks (id' exampleModel) emptyWorld = []"
    by (simp add: priorChunks_def getDownloadProgress_def emptyWorld_def)
  have bad0: "\<not> verifyChecksum exampleDigest (concat (replicate 10 [1])) (checksum exampleModel)"
    by code_simp
  then have bad: "\<not> verifyChecksum exampleDigest
      (concat (priorChunks (id' exampleModel) emptyWorld @ replicate 10 [1])) (checksum exampleModel)"
    by (simp add: pc)
  have run: "?out = (fst ?out, snd ?out)" by simp
  have i: "id' exampleModel = ''m1''" by (simp add: exampleModel_def)
  have nr: "\<not> isModelReady ''m1'' emptyWorld" by (simp add: isModelReady_def emptyWorld_def)
  from checksum_mismatch_outcome [OF u ne net acc body bad run]
  show ?thesis
    using u bad0 nr by (simp add: i errorEvent_def)
qed

theorem checksum_mismatch_leaves_checkpoint:
  "snd (downloadModelInBackground exampleDigest tenChunks exampleModel emptyWorld)
     = Inl (Error ''Checksum verification failed for m1'')
   \<and> getDownloadProgress ''m1''
        (fst (downloadModelInBackground exampleDigest tenChunks exampleModel emptyWorld))
     = Some \<lparr>p_modelId = ''m1'', p_bytesDownloaded = 10, p_totalBytes = Num 10,
             p_chunks = [[1], [1], [1], [1], [1], [1], [1], [1], [1], [1]]\<rparr>"
  by code_simp

section \<open>The order of the events\<close>

text \<open>
  C2, as the code has it.  An attempt on a model with a url dispatches at least one event,
  its last event is the one terminal event (\<open>complete\<close> exactly when the download
  succeeds, \<open>error\<close> otherwise), and the byte counts of its \<open>downloading\<close> events never
  decrease.  The \<open>error\<close> event carries the byte count 0, and \<open>verifying\<close> and
  \<open>complete\<close> carry \<open>totalBytes\<close>, so the order does not extend to them.
\<close>

theorem download_events_terminal_last:
  assumes "url metadata = Some u" and "u \<noteq> []"
    and "downloadModelInBackground digest net metadata w = (w', r)"
  shows "dispatched w' = dispatched w @ eventsSince w w'
     \<and> eventsSince w w' \<noteq> []
     \<and> terminal (last (eventsSince w w'))
     \<and> (\<forall>e \<in> set (butlast (eventsSince w w')). \<not> terminal e)
     \<and> (status (last (eventsSince w w')) = complete \<longleftrightarrow> r = Inr ())
     \<and> sorted_wrt js_le
          (map bytesDownloaded (filter (\<lambda>e. status e = downloading) (eventsSince w w')))"
proof -
  from download_shape [OF assms] obtain t inc tl where
    d: "dispatched w' = dispatched w
          @ downloadingEvents (id' metadata) t (startByteOf (id' metadata) w) inc @ tl"
    and tl: "(\<exists>e. tl = [errorEvent metadata e] \<and> r = Inl e)
        \<or> (\<exists>e. tl = [finalEvent (id' metadata) t verifying, errorEvent metadata e] \<and> r = Inl e)
        \<or> (tl = [finalEvent (id' metadata) t verifying, finalEvent (id' metadata) t complete]
            \<and> r = Inr ())"
    by blast
  let ?D = "downloadingEvents (id' metadata) t (startByteOf (id' metadata) w) inc"
  have ev: "eventsSince w w' = ?D @ tl"
    using d by (rule eventsSince_append)
  have nt: "\<forall>e \<in> set ?D. \<not> terminal e"
    by (auto dest: downloadingEvents_not_terminal)
  have srt: "sorted_wrt js_le (map bytesDownloaded ?D)"
    by (rule downloadingEvents_sorted)
  from tl show ?thesis
  proof (elim disjE exE conjE)
    fix e assume "tl = [errorEvent metadata e]" "r = Inl e"
    then show ?thesis
      using d nt srt unfolding ev
      by (simp add: downloadingEvents_filter errorEvent_def terminal_def)
  next
    fix e assume "tl = [finalEvent (id' metadata) t verifying, errorEvent metadata e]" "r = Inl e"
    then show ?thesis
      using d nt srt unfolding ev
      by (simp add: downloadingEvents_filter errorEvent_def finalEvent_def terminal_def
          butlast_append)
  next
    assume "tl = [finalEvent (id' metadata) t verifying, finalEvent (id' metadata) t complete]"
      "r = Inr ()"
    then show ?thesis
      using d nt srt unfolding ev
      by (simp add: downloadingEvents_filter errorEvent_def finalEvent_def terminal_def
          butlast_append)
  qed
qed

theorem download_events_terminal_last_witness:
  "url exampleModel = Some ''https://models.example.com/m1.bin''
   \<and> map status (eventsSince emptyWorld
         (fst (downloadModelInBackground exampleDigest completeStream exampleModel emptyWorld)))
       = [downloading, downloading, verifying, complete]
   \<and> terminal (last (eventsSince emptyWorld
         (fst (downloadModelInBackground exampleDigest completeStream exampleModel emptyWorld))))
   \<and> snd (downloadModelInBackground exampleDigest completeStream exampleModel emptyWorld) = Inr ()"
proof -
  let ?out = "downloadModelInBackground exampleDigest completeStream exampleModel emptyWorld"
  have u: "url exampleModel = Some ''https://models.example.com/m1.bin''"
    by (simp add: exampleModel_def)
  have ne: "''https://models.example.com/m1.bin'' \<noteq> []" by simp
  have run: "?out = (fst ?out, snd ?out)" by simp
  have st: "map status (eventsSince emptyWorld (fst ?out))
              = [downloading, downloading, verifying, complete]"
    by code_simp
  have l: "status (last (eventsSince emptyWorld (fst ?out))) = complete"
    by code_simp
  from download_events_terminal_last [OF u ne run] l
  have "terminal (last (eventsSince emptyWorld (fst ?out)))" and "snd ?out = Inr ()"
    by simp_all
  with u st show ?thesis by simp
qed

text \<open>
  The claim as stated fails when the stream breaks after two bytes: the \<open>downloading\<close>
  event with 2 bytes is followed by the \<open>error\<close> event with 0.
\<close>

theorem download_events_decrease:
  "map status
       (eventsSince emptyWorld
          (fst (downloadModelInBackground exampleDigest brokenStream exampleModel emptyWorld)))
     = [downloading, error]
   \<and> map bytesDownloaded
       (eventsSince emptyWorld
          (fst (downloadModelInBackground exampleDigest brokenStream exampleModel emptyWorld)))
     = [Num 2, Num 0]
   \<and> \<not> js_le (Num 2) (Num 0)"
  by code_simp

section \<open>The total length\<close>

text \<open>
  C3, as the code has it.  \<open>totalBytes\<close> is the declared length plus the resume offset;
  with no \<open>Content-Length\<close> the header reads as \<open>'0'\<close> and \<open>totalBytes\<close> is the resume
  offset alone.  Every event of the attempt but the \<open>error\<close> event carries that value;
  the size of the descriptor appears in the \<open>error\<close> event only.
\<close>

theorem totalBytes_from_content_length:
  assumes u: "url metadata = Some u" "u \<noteq> []"
    and net: "net \<lparr>req_url = u, req_headers = rangeHeaders (startByteOf (id' metadata) w)\<rparr>
                = Responded response"
    and acc: "ok response \<or> resp_status response = 206"
    and body: "resp_body response = Some (incoming, ending)"
    and run: "downloadModelInBackground digest net metadata w = (w', r)"
  shows "(\<forall>n. resp_contentLength response = Some (numberToString n) \<longrightarrow>
            totalBytesOf response (startByteOf (id' metadata) w)
              = Num (of_nat (n + startByteOf (id' metadata) w)))
     \<and> (resp_contentLength response = None \<longrightarrow>
            totalBytesOf response (startByteOf (id' metadata) w)
              = Num (of_nat (startByteOf (id' metadata) w)))
     \<and> (\<forall>e \<in> set (eventsSince w w').
            totalBytes e = (if status e = error then Num (of_nat (size' metadata))
                            else totalBytesOf response (startByteOf (id' metadata) w)))
     \<and> (ending = EndOfStream \<longrightarrow>
            (\<exists>e \<in> set (eventsSince w w'). status e = verifying
                \<and> totalBytes e = totalBytesOf response (startByteOf (id' metadata) w)))"
proof -
  let ?mid = "id' metadata"
  let ?k = "startByteOf ?mid w"
  let ?t = "totalBytesOf response ?k"
  let ?D = "downloadingEvents ?mid ?t ?k incoming"
  from catch_outcome [OF u run] obtain w1 where
    tr: "downloadModelInBackground_try digest net metadata u w = (w1, r)"
    and d: "dispatched w' = dispatched w1
              @ (case r of Inl e \<Rightarrow> [errorEvent metadata e] | Inr fin \<Rightarrow> [])"
    by blast
  note o = try_outcome [OF tr]
  have D: "\<forall>e \<in> set ?D. status e = downloading \<and> totalBytes e = ?t"
    by (auto dest: downloadingEvents_fields)
  have ev: "(\<forall>e \<in> set (eventsSince w w').
            totalBytes e = (if status e = error then Num (of_nat (size' metadata)) else ?t))
     \<and> (ending = EndOfStream \<longrightarrow>
            (\<exists>e \<in> set (eventsSince w w'). status e = verifying \<and> totalBytes e = ?t))"
  proof (cases ending)
    case (StreamError e)
    from o(5) [OF net acc, of incoming e] body StreamError d
    have "eventsSince w w' = ?D @ [errorEvent metadata e]"
      by (intro eventsSince_append) simp
    with D StreamError show ?thesis by (auto simp: errorEvent_def)
  next
    case EndOfStream
    show ?thesis
    proof (cases "verifyChecksum digest (concat (priorChunks ?mid w @ incoming)) (checksum metadata)")
      case False
      from o(6) [OF net acc _ False] body EndOfStream d
      have "eventsSince w w' = ?D @ [finalEvent ?mid ?t verifying,
              errorEvent metadata (Error (''Checksum verification failed for '' @ ?mid))]"
        by (intro eventsSince_append) simp
      with D show ?thesis by (auto simp: errorEvent_def finalEvent_def)
    next
      case True
      from o(7) [OF net acc _ True] body EndOfStream d
      have "eventsSince w w' = ?D @ [finalEvent ?mid ?t verifying, finalEvent ?mid ?t complete]"
        by (intro eventsSince_append) simp
      with D show ?thesis by (auto simp: finalEvent_def)
    qed
  qed
  moreover have "\<forall>n. resp_contentLength response = Some (numberToString n) \<longrightarrow>
      ?t = Num (of_nat (n + ?k))"
    by (simp add: totalBytesOf_declared)
  moreover have "resp_contentLength response = None \<longrightarrow> ?t = Num (of_nat ?k)"
    by (simp add: totalBytesOf_undeclared)
  ultimately show ?thesis by blast
qed

theorem totalBytes_from_content_length_witness:
  "numberToString 3 = ''3''
   \<and> totalBytesOf \<lparr>resp_status = 200, resp_statusText = ''OK'', resp_contentLength = Some ''3'',
                resp_body = Some ([[1, 2], [3]], EndOfStream)\<rparr> 0 = Num 3
   \<and> map totalBytes (eventsSince emptyWorld
         (fst (downloadModelInBackground exampleDigest completeStream exampleModel emptyWorld)))
       = [Num 3, Num 3, Num 3, Num 3]"
proof -
  let ?out = "downloadModelInBackground exampleDigest completeStream exampleModel emptyWorld"
  let ?response = "\<lparr>resp_status = 200, resp_statusText = ''OK'', resp_contentLength = Some ''3'',
                resp_body = Some ([[1, 2], [3]], EndOfStream)\<rparr>"
  have u: "url exampleModel = Some ''https://models.example.com/m1.bin''"
    by (simp add: exampleModel_def)
  have ne: "''https://models.example.com/m1.bin'' \<noteq> []" by simp
  have k: "startByteOf (id' exampleModel) emptyWorld = 0"
    by (simp add: startByteOf_def getDownloadProgress_def emptyWorld_def)
  have net: "completeStream \<lparr>req_url = ''https://models.example.com/m1.bin'',
               req_headers = rangeHeaders (startByteOf (id' exampleModel) emptyWorld)\<rparr>
               = Responded ?response"
    by (simp add: completeStream_def)
  have acc: "ok ?response \<or> resp_status ?response = 206" by (simp add: ok_def)
  have body: "resp_body ?response = Some ([[1, 2], [3]], EndOfStream)" by simp
  have run: "?out = (fst ?out, snd ?out)" by simp
  have n3: "numberToString 3 = ''3''" by code_simp
  have evs: "map totalBytes (eventsSince emptyWorld (fst ?out)) = [Num 3, Num 3, Num 3, Num 3]"
    by code_simp
  note t = totalBytes_from_content_length [OF u ne net acc body run]
  from t have "resp_contentLength ?response = Some (numberToString 3) \<longrightarrow>
      totalBytesOf ?response (startByteOf (id' exampleModel) emptyWorld)
        = Num (of_nat (3 + startByteOf (id' exampleModel) emptyWorld))"
    by blast
  then have t3: "totalBytesOf ?response 0 = Num 3"
    by (simp add: k n3)
  from t3 n3 evs show ?thesis by simp
qed

text \<open>
  The claim as stated fails for a fresh download of a model of size 1000 whose response
  declares no length: every event up to \<open>complete\<close> carries \<open>totalBytes = 0\<close>.
\<close>

theorem totalBytes_not_size:
  "size' exampleModel = 1000
   \<and> resp_contentLength \<lparr>resp_status = 200, resp_statusText = ''OK'', resp_contentLength = None,
                resp_body = Some ([[1, 2], [3]], EndOfStream)\<rparr> = None
   \<and> totalBytesOf \<lparr>resp_status = 200, resp_statusText = ''OK'', resp_contentLength = None,
                resp_body = Some ([[1, 2], [3]], EndOfStream)\<rparr> 0 = Num 0
   \<and> map status
       (eventsSince emptyWorld
          (fst (downloadModelInBackground exampleDigest noLengthStream exampleModel emptyWorld)))
     = [downloading, downloading, verifying, complete]
   \<and> map totalBytes
       (eventsSince emptyWorld
          (fst (downloadModelInBackground exampleDigest noLengthStream exampleModel emptyWorld)))
     = [Num 0, Num 0, Num 0, Num 0]"
  by code_simp

section \<open>The request of a resumed download\<close>

text \<open>
  C6.  With a stored download state of \<open>k > 0\<close> bytes the one request of the attempt
  carries the header \<open>Range: bytes=k-\<close>; with no state, or one of 0 bytes, it carries no
  header.  A response whose status is neither in 200..299 nor 206 ends the attempt with
  the error \<open>Download failed\<close>: nothing is stored and the \<open>error\<close> event is the only event.
\<close>

theorem download_range_request:
  assumes u: "url metadata = Some u" "u \<noteq> []"
    and run: "downloadModelInBackground digest net metadata w = (w', r)"
  shows "(\<forall>p. getDownloadProgress (id' metadata) w = Some p \<and> 0 < p_bytesDownloaded p \<longrightarrow>
            fetched w' = fetched w @ [\<lparr>req_url = u, req_headers =
              [(''Range'', ''bytes='' @ numberToString (p_bytesDownloaded p) @ ''-'')]\<rparr>])
     \<and> (getDownloadProgress (id' metadata) w = None
          \<or> (\<exists>p. getDownloadProgress (id' metadata) w = Some p \<and> p_bytesDownloaded p = 0) \<longrightarrow>
            fetched w' = fetched w @ [\<lparr>req_url = u, req_headers = []\<rparr>])
     \<and> (\<forall>response.
            net \<lparr>req_url = u, req_headers = rangeHeaders (startByteOf (id' metadata) w)\<rparr>
              = Responded response
            \<and> \<not> (200 \<le> resp_status response \<and> resp_status response \<le> 299)
            \<and> resp_status response \<noteq> 206 \<longrightarrow>
            r = Inl (Error (''Download failed: '' @ resp_statusText response))
            \<and> models w' = models w \<and> downloadProgress w' = downloadProgress w
            \<and> eventsSince w w'
                = [errorEvent metadata (Error (''Download failed: '' @ resp_statusText response))])"
proof -
  let ?mid = "id' metadata"
  let ?k = "startByteOf ?mid w"
  from catch_outcome [OF u run] obtain w1 where
    tr: "downloadModelInBackground_try digest net metadata u w = (w1, r)"
    and m: "models w' = models w1" and p: "downloadProgress w' = downloadProgress w1"
    and f: "fetched w' = fetched w1"
    and d: "dispatched w' = dispatched w1
              @ (case r of Inl e \<Rightarrow> [errorEvent metadata e] | Inr fin \<Rightarrow> [])"
    by blast
  note o = try_outcome [OF tr]
  have req: "fetched w' = fetched w @ [\<lparr>req_url = u, req_headers = rangeHeaders ?k\<rparr>]"
    using o(1) f by simp
  have rej: "r = Inl (Error (''Download failed: '' @ resp_statusText response))
            \<and> models w' = models w \<and> downloadProgress w' = downloadProgress w
            \<and> eventsSince w w'
                = [errorEvent metadata (Error (''Download failed: '' @ resp_statusText response))]"
    if "net \<lparr>req_url = u, req_headers = rangeHeaders ?k\<rparr> = Responded response"
      and "\<not> (200 \<le> resp_status response \<and> resp_status response \<le> 299)"
      and "resp_status response \<noteq> 206" for response
  proof -
    from that(2) have "\<not> ok response" by (simp add: ok_def)
    from o(3) [OF that(1) this that(3)] m p d show ?thesis
      by (auto intro: eventsSince_append)
  qed
  show ?thesis
    using req rej by (auto simp: startByteOf_def rangeHeaders_def)
qed

theorem download_range_request_witness:
  "getDownloadProgress ''m1'' checkpointed
     = Some \<lparr>p_modelId = ''m1'', p_bytesDownloaded = 10, p_totalBytes = Num 10,
             p_chunks = [[1], [1], [1], [1], [1], [1], [1], [1], [1], [1]]\<rparr>
   \<and> fetched (fst (downloadModelInBackground exampleDigest notFound exampleModel checkpointed))
       = fetched checkpointed @ [\<lparr>req_url = ''https://models.example.com/m1.bin'',
                                   req_headers = [(''Range'', ''bytes=10-'')]\<rparr>]
   \<and> fetched (fst (downloadModelInBackground exampleDigest notFound exampleModel emptyWorld))
       = [\<lparr>req_url = ''https://models.example.com/m1.bin'', req_headers = []\<rparr>]
   \<and> snd (downloadModelInBackground exampleDigest notFound exampleModel checkpointed)
       = Inl (Error ''Download failed: Not Found'')
   \<and> numberToString 600000 = ''600000''"
proof -
  let ?out = "downloadModelInBackground exampleDigest notFound exampleModel checkpointed"
  let ?fresh = "downloadModelInBackground exampleDigest notFound exampleModel emptyWorld"
  let ?p = "\<lparr>p_modelId = ''m1'', p_bytesDownloaded = 10, p_totalBytes = Num 10,
             p_chunks = [[1], [1], [1], [1], [1], [1], [1], [1], [1], [1 :: byte]]\<rparr>"
  let ?response = "\<lparr>resp_status = 404, resp_statusText = ''Not Found'', resp_contentLength = None,
                resp_body = None\<rparr>"
  have u: "url exampleModel = Some ''https://models.example.com/m1.bin''"
    by (simp add: exampleModel_def)
  have ne: "''https://models.example.com/m1.bin'' \<noteq> []" by simp
  have i: "id' exampleModel = ''m1''" by (simp add: exampleModel_def)
  have run: "?out = (fst ?out, snd ?out)" by simp
  have run0: "?fresh = (fst ?fresh, snd ?fresh)" by simp
  have p: "getDownloadProgress ''m1'' checkpointed = Some ?p" by code_simp
  have p0: "getDownloadProgress ''m1'' emptyWorld = None"
    by (simp add: getDownloadProgress_def emptyWorld_def)
  have n10: "numberToString 10 = ''10''" by (simp add: numberToString.simps decDigits_def)
  have n6: "numberToString 600000 = ''600000''" by (simp add: numberToString.simps decDigits_def)
  have net: "notFound \<lparr>req_url = ''https://models.example.com/m1.bin'',
               req_headers = rangeHeaders (startByteOf (id' exampleModel) checkpointed)\<rparr>
               = Responded ?response"
    by (simp add: notFound_def)
  note t = download_range_request [OF u ne run]
  note t0 = download_range_request [OF u ne run0]
  have h1: "getDownloadProgress (id' exampleModel) checkpointed = Some ?p \<and> 0 < p_bytesDownloaded ?p"
    using p by (simp add: i)
  have h2: "getDownloadProgress (id' exampleModel) emptyWorld = None
      \<or> (\<exists>p. getDownloadProgress (id' exampleModel) emptyWorld = Some p \<and> p_bytesDownloaded p = 0)"
    using p0 by (simp add: i)
  have h3: "notFound \<lparr>req_url = ''https://models.example.com/m1.bin'',
               req_headers = rangeHeaders (startByteOf (id' exampleModel) checkpointed)\<rparr>
               = Responded ?response
            \<and> \<not> (200 \<le> resp_status ?response \<and> resp_status ?response \<le> 299)
            \<and> resp_status ?response \<noteq> 206"
    using net by simp
  from t [THEN conjunct1, THEN spec, of ?p, THEN mp, OF h1]
  have 1: "fetched (fst ?out) = fetched checkpointed
      @ [\<lparr>req_url = ''https://models.example.com/m1.bin'', req_headers = [(''Range'', ''bytes=10-'')]\<rparr>]"
    by (simp add: n10)
  from t0 [THEN conjunct2, THEN conjunct1, THEN mp, OF h2]
  have 2: "fetched (fst ?fresh)
      = [\<lparr>req_url = ''https://models.example.com/m1.bin'', req_headers = []\<rparr>]"
    by (simp add: emptyWorld_def)
  from t [THEN conjunct2, THEN conjunct2, THEN spec, of ?response, THEN mp, OF h3]
  have 3: "snd ?out = Inl (Error ''Download failed: Not Found'')"
    by simp
  from p 1 2 3 n6 show ?thesis by simp
qed

section \<open>The percentage\<close>

text \<open>
  C8, as the code has it.  A \<open>downloading\<close> event carries
  \<open>(bytesDownloaded / totalBytes) * 100\<close> as it comes, with no clamping; \<open>verifying\<close> and
  \<open>complete\<close> carry 100 and \<open>error\<close> carries 0.  The value lies between 0 and 100 when
  \<open>0 \<le> bytesDownloaded \<le> totalBytes\<close> and \<open>0 < totalBytes\<close>.
\<close>

theorem progress_percentage:
  assumes run: "downloadModelInBackground digest net metadata w = (w', r)"
    and e: "e \<in> set (eventsSince w w')"
  shows "(status e = downloading \<longrightarrow>
            percentage e = js_mul (js_div (bytesDownloaded e) (totalBytes e)) (Num 100))
       \<and> (status e = verifying \<or> status e = complete \<longrightarrow> percentage e = Num 100)
       \<and> (status e = error \<longrightarrow> percentage e = Num 0)
       \<and> status e \<noteq> pending
       \<and> (\<forall>b t. bytesDownloaded e = Num b \<and> totalBytes e = Num t \<and> 0 \<le> b \<and> b \<le> t \<and> 0 < t \<longrightarrow>
             (\<exists>p. percentage e = Num p \<and> 0 \<le> p \<and> p \<le> 100))"
proof (cases "\<exists>u. url metadata = Some u \<and> u \<noteq> []")
  case False
  with run have "w' = w"
    by (auto simp: downloadModelInBackground_def split: option.splits if_splits)
  with e show ?thesis by (simp add: eventsSince_def)
next
  case True
  then obtain u where u: "url metadata = Some u" "u \<noteq> []" by blast
  from download_shape [OF u run] obtain t inc tl where
    d: "dispatched w' = dispatched w
          @ downloadingEvents (id' metadata) t (startByteOf (id' metadata) w) inc @ tl"
    and tl: "(\<exists>e. tl = [errorEvent metadata e] \<and> r = Inl e)
        \<or> (\<exists>e. tl = [finalEvent (id' metadata) t verifying, errorEvent metadata e] \<and> r = Inl e)
        \<or> (tl = [finalEvent (id' metadata) t verifying, finalEvent (id' metadata) t complete]
            \<and> r = Inr ())"
    by blast
  let ?D = "downloadingEvents (id' metadata) t (startByteOf (id' metadata) w) inc"
  have ev: "eventsSince w w' = ?D @ tl"
    using d by (rule eventsSince_append)
  from e ev consider (loop) "e \<in> set ?D" | (tail) "e \<in> set tl" by auto
  then show ?thesis
  proof cases
    case loop
    note f = downloadingEvents_fields [OF loop]
    have "\<exists>p. js_mul (js_div (Num b) (Num t')) (Num 100) = Num p \<and> 0 \<le> p \<and> p \<le> 100"
      if "0 \<le> b" "b \<le> t'" "0 < t'" for b t' :: rat
    proof -
      from that have "b * 100 / t' \<le> 100" "0 \<le> b * 100 / t'"
        by (simp_all add: divide_le_eq)
      with that show ?thesis by simp
    qed
    with f show ?thesis by auto
  next
    case tail
    with tl show ?thesis
      by (auto simp: errorEvent_def finalEvent_def)
  qed
qed

theorem progress_percentage_witness:
  "\<lparr>modelId = ''m1'', bytesDownloaded = Num 2, totalBytes = Num 3, percentage = Num (200 / 3),
     status = downloading, error' = None\<rparr>
     \<in> set (eventsSince emptyWorld
         (fst (downloadModelInBackground exampleDigest completeStream exampleModel emptyWorld)))
   \<and> Num (200 / 3) = js_mul (js_div (Num 2) (Num 3)) (Num 100)
   \<and> (\<exists>p. Num (200 / 3) = Num p \<and> 0 \<le> p \<and> p \<le> 100)"
proof -
  let ?out = "downloadModelInBackground exampleDigest completeStream exampleModel emptyWorld"
  let ?e = "\<lparr>modelId = ''m1'', bytesDownloaded = Num 2, totalBytes = Num 3,
             percentage = Num (200 / 3), status = downloading, error' = None\<rparr>"
  have run: "?out = (fst ?out, snd ?out)" by simp
  have e: "?e \<in> set (eventsSince emptyWorld (fst ?out))" by code_simp
  from progress_percentage [OF run e]
  have "percentage ?e = js_mul (js_div (bytesDownloaded ?e) (totalBytes ?e)) (Num 100)"
    and "\<forall>b t. bytesDownloaded ?e = Num b \<and> totalBytes ?e = Num t \<and> 0 \<le> b \<and> b \<le> t \<and> 0 < t \<longrightarrow>
             (\<exists>p. percentage ?e = Num p \<and> 0 \<le> p \<and> p \<le> 100)"
    by simp_all
  then have "Num (200 / 3) = js_mul (js_div (Num 2) (Num 3)) (Num 100)"
    and "\<exists>p. Num (200 / 3) = Num p \<and> 0 \<le> p \<and> p \<le> (100 :: rat)"
    by simp_all
  with e show ?thesis by blast
qed

text \<open>
  The claim as stated fails when the body is longer than the declared length (4 bytes
  against 2 give 200), and when no length is declared (a division by 0 gives \<open>Infinity\<close>).
\<close>

theorem progress_percentage_unclamped:
  "map status
       (eventsSince emptyWorld
          (fst (downloadModelInBackground exampleDigest overrunStream exampleModel emptyWorld)))
     = [downloading, verifying, complete]
   \<and> map bytesDownloaded
       (eventsSince emptyWorld
          (fst (downloadModelInBackground exampleDigest overrunStream exampleModel emptyWorld)))
     = [Num 4, Num 2, Num 2]
   \<and> map totalBytes
       (eventsSince emptyWorld
          (fst (downloadModelInBackground exampleDigest overrunStream exampleModel emptyWorld)))
     = [Num 2, Num 2, Num 2]
   \<and> map percentage
       (eventsSince emptyWorld
          (fst (downloadModelInBackground exampleDigest overrunStream exampleModel emptyWorld)))
     = [Num 200, Num 100, Num 100]
   \<and> map totalBytes
       (eventsSince emptyWorld
          (fst (downloadModelInBackground exampleDigest noLengthStream exampleModel emptyWorld)))
     = [Num 0, Num 0, Num 0, Num 0]
   \<and> map percentage
       (eventsSince emptyWorld
          (fst (downloadModelInBackground exampleDigest noLengthStream exampleModel emptyWorld)))
     = [PosInf, PosInf, Num 100, Num 100]"
  by code_simp

section \<open>Only verified records are stored\<close>

lemma verifiedStore_put:
  assumes "verifiedStore digest w" and "verifyChecksum digest blob (checksum metadata)"
    and "models w' = (models w)(id' metadata \<mapsto>
           \<lparr>r_id = id' metadata, r_metadata = metadata, r_blob = blob, r_verified = True\<rparr>)"
  shows "verifiedStore digest w'"
  using assms by (auto simp: verifiedStore_def)

lemma verifiedStore_same:
  "verifiedStore digest w \<Longrightarrow> models w' = models w \<Longrightarrow> verifiedStore digest w'"
  by (simp add: verifiedStore_def)

lemma loadSeedModel_models:
  assumes "loadSeedModel digest net metadata w = (w', r)"
  shows "models w' = models w
         \<or> (\<exists>blob. verifyChecksum digest blob (checksum metadata)
               \<and> models w' = (models w)(id' metadata \<mapsto>
                    \<lparr>r_id = id' metadata, r_metadata = metadata, r_blob = blob, r_verified = True\<rparr>))"
  using assms
  by (auto simp: loadSeedModel_def fetch_def consoleOut_def saveModel_def Let_def
      split: FetchResult.splits sum.splits if_splits)

lemma downloadModelInBackground_models:
  assumes "downloadModelInBackground digest net metadata w = (w', r)"
  shows "models w' = models w
         \<or> (\<exists>blob. verifyChecksum digest blob (checksum metadata)
               \<and> models w' = (models w)(id' metadata \<mapsto>
                    \<lparr>r_id = id' metadata, r_metadata = metadata, r_blob = blob, r_verified = True\<rparr>))"
  using assms
  unfolding downloadModelInBackground_def downloadModelInBackground_try_def fetch_def
  by (auto simp: Let_def case_prod_beta readLoop_simps consoleOut_def emitDownloadProgress_def
      saveModel_def clearDownloadProgress_def
      split: option.splits FetchResult.splits StreamEnd.splits if_splits prod.splits sum.splits)

lemma loadSeedModel_verified:
  "verifiedStore digest w \<Longrightarrow> loadSeedModel digest net metadata w = (w', r) \<Longrightarrow> verifiedStore digest w'"
  using loadSeedModel_models [of digest net metadata w w' r]
  by (auto intro: verifiedStore_put verifiedStore_same)

lemma downloadModelInBackground_verified:
  "verifiedStore digest w \<Longrightarrow> downloadModelInBackground digest net metadata w = (w', r)
     \<Longrightarrow> verifiedStore digest w'"
  using downloadModelInBackground_models [of digest net metadata w w' r]
  by (auto intro: verifiedStore_put verifiedStore_same)

lemma verifiedStore_consoleOut:
  "verifiedStore digest (consoleOut l msg w) = verifiedStore digest w"
  by (simp add: verifiedStore_def consoleOut_def)

lemma ensureSeedModels_loop_verified:
  "verifiedStore digest w \<Longrightarrow> ensureSeedModels_loop digest net db ms w = (w', r)
     \<Longrightarrow> verifiedStore digest w'"
proof (induction ms arbitrary: w)
  case Nil
  then show ?case by simp
next
  case (Cons model rest)
  show ?case
  proof (cases db)
    case (Some e)
    with Cons.prems show ?thesis by (simp add: awaitIsModelReady_def)
  next
    case None
    show ?thesis
    proof (cases "isModelReady (id' model) w")
      case True
      with None Cons.prems
        Cons.IH [of "consoleOut Log (''[ModelManager] Seed model already cached: '' @ id' model) w"]
      show ?thesis by (simp add: verifiedStore_consoleOut awaitIsModelReady_def)
    next
      case False
      let ?w0 = "consoleOut Log (''[ModelManager] Loading seed model: '' @ id' model) w"
      obtain w1 r1 where l: "loadSeedModel digest net model ?w0 = (w1, r1)"
        by (cases "loadSeedModel digest net model ?w0")
      from Cons.prems(1) have "verifiedStore digest ?w0" by (simp add: verifiedStore_consoleOut)
      from loadSeedModel_verified [OF this l] have v1: "verifiedStore digest w1" .
      show ?thesis
      proof (cases r1)
        case (Inl e)
        with None False l Cons.prems(2) v1 show ?thesis by (simp add: awaitIsModelReady_def)
      next
        case (Inr u)
        with None False l Cons.prems(2) Cons.IH [OF v1] show ?thesis
          by (simp add: awaitIsModelReady_def)
      qed
    qed
  qed
qed

lemma ensureSeedModels_verified:
  "verifiedStore digest w \<Longrightarrow> ensureSeedModels digest net db w = (w', r)
     \<Longrightarrow> verifiedStore digest w'"
  unfolding ensureSeedModels_def by (rule ensureSeedModels_loop_verified)

lemma startBackgroundModelFetch_verified:
  assumes "verifiedStore digest w"
    and "startBackgroundModelFetch digest net db estimate caps w = (w', r)"
  shows "verifiedStore digest w'"
proof -
  have d: "verifiedStore digest w1"
    if "downloadModelInBackground digest net model (consoleOut Log msg w) = (w1, r1)"
    for model msg w1 r1
    using downloadModelInBackground_verified [OF _ that] assms(1)
    by (simp add: verifiedStore_consoleOut)
  from assms show ?thesis
    unfolding startBackgroundModelFetch_def awaitIsModelReady_def
    by (auto simp: verifiedStore_consoleOut dest: d
        split: option.splits if_splits prod.splits sum.splits)
qed

lemma initializeModelManager_verified:
  assumes "verifiedStore digest w"
    and "initializeModelManager digest net db estimate caps w = (w', r)"
  shows "verifiedStore digest w'"
proof -
  let ?w0 = "consoleOut Log ''[ModelManager] Device capabilities:''
                (consoleOut Log ''[ModelManager] Initializing...'' w)"
  obtain w1 r1 where e: "ensureSeedModels digest net db ?w0 = (w1, r1)"
    by (cases "ensureSeedModels digest net db ?w0")
  from assms(1) have "verifiedStore digest ?w0" by (simp add: verifiedStore_consoleOut)
  from ensureSeedModels_verified [OF this e] have v1: "verifiedStore digest w1" .
  show ?thesis
  proof (cases r1)
    case (Inl x)
    with assms(2) e v1 show ?thesis by (simp add: initializeModelManager_def)
  next
    case (Inr u)
    with assms(2) e have "startBackgroundModelFetch digest net db estimate caps w1 = (w', r)"
      by (simp add: initializeModelManager_def)
    from startBackgroundModelFetch_verified [OF v1 this] show ?thesis .
  qed
qed

lemma reachable_verified: "reachable digest w \<Longrightarrow> verifiedStore digest w"
proof (induction rule: reachable.induct)
  case (fresh w)
  then show ?case by (simp add: verifiedStore_def)
qed (auto intro: loadSeedModel_verified ensureSeedModels_verified
      downloadModelInBackground_verified startBackgroundModelFetch_verified
      initializeModelManager_verified)

text \<open>
  C10.  In every world the model manager can bring about from an empty models store, each
  record of the store is marked verified and its blob verifies against the checksum of its
  metadata: both writes, the one of \<open>loadSeedModel\<close> and the one of
  \<open>downloadModelInBackground\<close>, pass \<open>verified = true\<close> and come after
  \<open>verifyChecksum\<close> has succeeded on the blob they store.  So a model is ready exactly
  when the store has a record for it.
\<close>

theorem stored_models_verified:
  assumes "reachable digest w"
  shows "(\<forall>mid r. models w mid = Some r \<longrightarrow>
            r_verified r \<and> verifyChecksum digest (r_blob r) (checksum (r_metadata r)))
       \<and> (\<forall>mid. isModelReady mid w \<longleftrightarrow> models w mid \<noteq> None)"
  using reachable_verified [OF assms]
  by (auto simp: verifiedStore_def isModelReady_def split: option.splits)

theorem stored_models_verified_witness:
  "reachable exampleDigest downloaded
   \<and> models downloaded ''m1''
       = Some \<lparr>r_id = ''m1'', r_metadata = exampleModel, r_blob = [1, 2, 3], r_verified = True\<rparr>
   \<and> verifyChecksum exampleDigest [1, 2, 3] (checksum exampleModel)
   \<and> isModelReady ''m1'' downloaded"
proof -
  let ?r = "\<lparr>r_id = ''m1'', r_metadata = exampleModel, r_blob = [1, 2, 3], r_verified = True\<rparr>"
  have "reachable exampleDigest emptyWorld"
    by (rule reachable.fresh) (simp add: emptyWorld_def)
  then have re: "reachable exampleDigest downloaded"
    unfolding downloaded_def
    by (rule reachable.download) (rule surjective_pairing)
  have m: "models downloaded ''m1'' = Some ?r" by code_simp
  note t = stored_models_verified [OF re]
  from t [THEN conjunct1, THEN spec, THEN spec, THEN mp, OF m]
  have v: "verifyChecksum exampleDigest [1, 2, 3] (checksum exampleModel)"
    by simp
  from t [THEN conjunct2, THEN spec, of "''m1''"] m
  have i: "isModelReady ''m1'' downloaded"
    by simp
  from re m v i show ?thesis by simp
qed

section \<open>Background fetch is best effort\<close>

lemma checkStorageAvailability_headroom:
  "checkStorageAvailability (Some (Inr est)) (of_nat s / 1048576) = Inr (int s \<le> headroom est)"
proof -
  let ?q = "case quota est of None \<Rightarrow> 0 | Some q \<Rightarrow> q"
  let ?u = "case usage est of None \<Rightarrow> 0 | Some u \<Rightarrow> u"
  have n: "(1024 * 1024 :: rat) = 1048576" by simp
  have "((of_nat s :: rat) / 1048576 \<le> (of_nat ?q - of_nat ?u) / 1048576)
          \<longleftrightarrow> (of_nat s :: rat) \<le> of_nat ?q - of_nat ?u"
    by (simp add: divide_le_cancel)
  also have "\<dots> \<longleftrightarrow> (of_int (int s) :: rat) \<le> of_int (int ?q - int ?u)"
    by simp
  also have "\<dots> \<longleftrightarrow> int s \<le> int ?q - int ?u"
    by (rule of_int_le_iff)
  finally have e: "((of_nat s :: rat) / 1048576 \<le> (of_nat ?q - of_nat ?u) / 1048576)
          \<longleftrightarrow> int s \<le> int ?q - int ?u" .
  show ?thesis
    unfolding checkStorageAvailability_def Let_def headroom_def
    by (simp only: option.case sum.case n e)
qed

lemma noTransfer_consoleOut: "noTransfer w (consoleOut l msg w)"
  by (simp add: noTransfer_def consoleOut_def)

lemma noTransfer_refl: "noTransfer w w"
  by (simp add: noTransfer_def)

text \<open>
  C7, as the code has it.  \<open>startBackgroundModelFetch\<close> throws to its caller exactly when
  the recommended model is a known model that is not a seed model and either the store
  read of \<open>isModelReady\<close> rejects or, for a model not yet ready, the platform's storage
  estimate rejects; it then has changed nothing.  Otherwise it returns: when the
  recommended model is unknown, a seed model or already ready, it starts no transfer; when
  the estimate leaves less headroom than the size of the model, it starts no transfer and
  logs a warning; and when the download fails, the failure is logged on the console and
  not passed on.  The world it gives is the one after the background download has settled.
\<close>

theorem startBackgroundModelFetch_throws_only:
  "(\<forall>e. snd (startBackgroundModelFetch digest net db estimate caps w) = Inl e \<longleftrightarrow>
        (\<exists>model. find (\<lambda>m. id' m = recommendedModel caps) DEFAULT_MANIFEST_models = Some model
           \<and> \<not> isSeed model
           \<and> (db = Some e
               \<or> (db = None \<and> \<not> isModelReady (id' model) w \<and> estimate = Some (Inl e)))))
   \<and> (\<forall>e. snd (startBackgroundModelFetch digest net db estimate caps w) = Inl e \<longrightarrow>
        fst (startBackgroundModelFetch digest net db estimate caps w) = w)
   \<and> ((\<forall>model. find (\<lambda>m. id' m = recommendedModel caps) DEFAULT_MANIFEST_models = Some model
                \<longrightarrow> isSeed model \<or> (db = None \<and> isModelReady (id' model) w))
        \<longrightarrow> snd (startBackgroundModelFetch digest net db estimate caps w) = Inr ()
            \<and> noTransfer w (fst (startBackgroundModelFetch digest net db estimate caps w)))
   \<and> (\<forall>model est. find (\<lambda>m. id' m = recommendedModel caps) DEFAULT_MANIFEST_models = Some model
                \<and> \<not> isSeed model \<and> db = None \<and> \<not> isModelReady (id' model) w
                \<and> estimate = Some (Inr est) \<and> headroom est < int (size' model)
        \<longrightarrow> snd (startBackgroundModelFetch digest net db estimate caps w) = Inr ()
            \<and> noTransfer w (fst (startBackgroundModelFetch digest net db estimate caps w))
            \<and> console (fst (startBackgroundModelFetch digest net db estimate caps w))
                = console w @ [(Warn, ''[ModelManager] Insufficient storage for model download'')])
   \<and> (\<forall>model w1 e. find (\<lambda>m. id' m = recommendedModel caps) DEFAULT_MANIFEST_models = Some model
                \<and> \<not> isSeed model \<and> db = None \<and> \<not> isModelReady (id' model) w
                \<and> checkStorageAvailability estimate (of_nat (size' model) / (1024 * 1024)) = Inr True
                \<and> downloadModelInBackground digest net model
                     (consoleOut Log (''[ModelManager] Starting background fetch: '' @ id' model) w)
                   = (w1, Inl e)
        \<longrightarrow> startBackgroundModelFetch digest net db estimate caps w
              = (consoleOut Err ''[ModelManager] Background download failed:'' w1, Inr ()))"
proof -
  let ?out = "startBackgroundModelFetch digest net db estimate caps w"
  let ?found = "find (\<lambda>m. id' m = recommendedModel caps) DEFAULT_MANIFEST_models"
  have 1: "snd ?out = Inl e \<longleftrightarrow>
        (\<exists>model. ?found = Some model \<and> \<not> isSeed model
           \<and> (db = Some e
               \<or> (db = None \<and> \<not> isModelReady (id' model) w \<and> estimate = Some (Inl e))))" for e
    by (auto simp: startBackgroundModelFetch_def awaitIsModelReady_def
        checkStorageAvailability_def Let_def
        split: option.splits prod.splits sum.splits if_splits)
  have 2: "fst ?out = w" if "snd ?out = Inl e" for e
    using that
    by (auto simp: startBackgroundModelFetch_def awaitIsModelReady_def
        split: option.splits prod.splits sum.splits if_splits)
  have 3: "snd ?out = Inr () \<and> noTransfer w (fst ?out)"
    if "\<forall>model. ?found = Some model \<longrightarrow> isSeed model \<or> (db = None \<and> isModelReady (id' model) w)"
    using that
    by (auto simp: startBackgroundModelFetch_def awaitIsModelReady_def noTransfer_consoleOut
        split: option.splits)
  have 4: "snd ?out = Inr () \<and> noTransfer w (fst ?out)
            \<and> console (fst ?out)
                = console w @ [(Warn, ''[ModelManager] Insufficient storage for model download'')]"
    if "?found = Some model" "\<not> isSeed model" "db = None" "\<not> isModelReady (id' model) w"
      "estimate = Some (Inr est)" "headroom est < int (size' model)" for model est
  proof -
    from that(5,6)
    have "checkStorageAvailability estimate (of_nat (size' model) / 1048576) = Inr False"
      by (simp add: checkStorageAvailability_headroom)
    with that(1-4) show ?thesis
      by (simp add: startBackgroundModelFetch_def awaitIsModelReady_def noTransfer_consoleOut)
         (simp add: consoleOut_def)
  qed
  have 5: "?out = (consoleOut Err ''[ModelManager] Background download failed:'' w1, Inr ())"
    if "?found = Some model" "\<not> isSeed model" "db = None" "\<not> isModelReady (id' model) w"
      "checkStorageAvailability estimate (of_nat (size' model) / (1024 * 1024)) = Inr True"
      "downloadModelInBackground digest net model
         (consoleOut Log (''[ModelManager] Starting background fetch: '' @ id' model) w) = (w1, Inl e)"
    for model w1 e
    using that by (simp add: startBackgroundModelFetch_def awaitIsModelReady_def)
  from 1 2 3 4 5 show ?thesis by blast
qed

theorem startBackgroundModelFetch_throws_only_witness:
  "snd (startBackgroundModelFetch exampleDigest notFound None None (capsFor ''llm-small-q4'')
          emptyWorld)
     = Inr ()
   \<and> last (console (fst (startBackgroundModelFetch exampleDigest notFound None None
                (capsFor ''llm-small-q4'') emptyWorld)))
       = (Err, ''[ModelManager] Background download failed:'')
   \<and> snd (downloadModelInBackground exampleDigest notFound smallModel
            (consoleOut Log ''[ModelManager] Starting background fetch: llm-small-q4'' emptyWorld))
       = Inl (Error ''Download failed: Not Found'')
   \<and> snd (startBackgroundModelFetch exampleDigest completeStream (Some (Error ''InvalidStateError''))
            None (capsFor ''llm-seed-q8'') emptyWorld)
       = Inr ()
   \<and> noTransfer emptyWorld
        (fst (startBackgroundModelFetch exampleDigest completeStream (Some (Error ''InvalidStateError''))
                None (capsFor ''llm-seed-q8'') emptyWorld))
   \<and> snd (startBackgroundModelFetch exampleDigest completeStream None littleRoom
            (capsFor ''llm-small-q4'') emptyWorld)
       = Inr ()
   \<and> noTransfer emptyWorld
        (fst (startBackgroundModelFetch exampleDigest completeStream None littleRoom
                (capsFor ''llm-small-q4'') emptyWorld))
   \<and> console (fst (startBackgroundModelFetch exampleDigest completeStream None littleRoom
                (capsFor ''llm-small-q4'') emptyWorld))
       = [(Warn, ''[ModelManager] Insufficient storage for model download'')]
   \<and> startBackgroundModelFetch exampleDigest completeStream (Some (Error ''InvalidStateError''))
            None (capsFor ''llm-small-q4'') emptyWorld
       = (emptyWorld, Inl (Error ''InvalidStateError''))"
proof -
  let ?small = "capsFor ''llm-small-q4''"
  let ?seedc = "capsFor ''llm-seed-q8''"
  let ?est = "\<lparr>quota = Some 500000, usage = Some 0\<rparr>"
  let ?dberr = "Error ''InvalidStateError''"
  let ?w0 = "consoleOut Log ''[ModelManager] Starting background fetch: llm-small-q4'' emptyWorld"
  let ?dl = "downloadModelInBackground exampleDigest notFound smallModel ?w0"
  let ?response = "\<lparr>resp_status = 404, resp_statusText = ''Not Found'', resp_contentLength = None,
                resp_body = None\<rparr>"
  have fs: "find (\<lambda>m. id' m = recommendedModel ?small) DEFAULT_MANIFEST_models = Some smallModel"
    by (simp add: capsFor_def DEFAULT_MANIFEST_models_def smallModel_def)
  have fseed: "\<forall>model. find (\<lambda>m. id' m = recommendedModel ?seedc) DEFAULT_MANIFEST_models = Some model
                \<longrightarrow> isSeed model \<or> (Some ?dberr = None \<and> isModelReady (id' model) emptyWorld)"
    by (simp add: capsFor_def DEFAULT_MANIFEST_models_def)
  have ns: "\<not> isSeed smallModel"
    by (simp add: DEFAULT_MANIFEST_models_def smallModel_def)
  have nr: "\<not> isModelReady (id' smallModel) emptyWorld"
    by (simp add: isModelReady_def emptyWorld_def)
  have hr: "headroom ?est < int (size' smallModel)"
    by (simp add: headroom_def DEFAULT_MANIFEST_models_def smallModel_def)
  have i: "id' smallModel = ''llm-small-q4''"
    by (simp add: DEFAULT_MANIFEST_models_def smallModel_def)
  have u: "url smallModel = Some ''https://models.example.com/llm-small-q4.gguf''"
    by (simp add: DEFAULT_MANIFEST_models_def smallModel_def MODEL_REGISTRY_URL_def)
  have ne: "''https://models.example.com/llm-small-q4.gguf'' \<noteq> []" by simp
  have av: "checkStorageAvailability None (of_nat (size' smallModel) / (1024 * 1024)) = Inr True"
    by (simp add: checkStorageAvailability_def)
  have run0: "?dl = (fst ?dl, snd ?dl)" by simp
  from catch_outcome [OF u ne run0] obtain w1 where
    tr: "downloadModelInBackground_try exampleDigest notFound smallModel
           ''https://models.example.com/llm-small-q4.gguf'' ?w0 = (w1, snd ?dl)"
    by blast
  have net: "notFound \<lparr>req_url = ''https://models.example.com/llm-small-q4.gguf'',
               req_headers = rangeHeaders (startByteOf (id' smallModel) ?w0)\<rparr> = Responded ?response"
    by (simp add: notFound_def)
  from try_outcome(3) [OF tr net]
  have dl: "snd ?dl = Inl (Error ''Download failed: Not Found'')"
    by (simp add: ok_def)
  have run: "downloadModelInBackground exampleDigest notFound smallModel
               (consoleOut Log (''[ModelManager] Starting background fetch: '' @ id' smallModel)
                  emptyWorld)
             = (fst ?dl, Inl (Error ''Download failed: Not Found''))"
    using dl by (simp add: i prod_eq_iff)
  note a = startBackgroundModelFetch_throws_only [of exampleDigest notFound None None ?small emptyWorld]
  note b = startBackgroundModelFetch_throws_only [of exampleDigest completeStream "Some ?dberr" None
      ?seedc emptyWorld]
  note c = startBackgroundModelFetch_throws_only [of exampleDigest completeStream None littleRoom
      ?small emptyWorld]
  note d = startBackgroundModelFetch_throws_only [of exampleDigest completeStream "Some ?dberr" None
      ?small emptyWorld]
  have h5: "find (\<lambda>m. id' m = recommendedModel ?small) DEFAULT_MANIFEST_models = Some smallModel
                \<and> \<not> isSeed smallModel \<and> None = (None :: thrown option)
                \<and> \<not> isModelReady (id' smallModel) emptyWorld
                \<and> checkStorageAvailability None (of_nat (size' smallModel) / (1024 * 1024)) = Inr True
                \<and> downloadModelInBackground exampleDigest notFound smallModel
                     (consoleOut Log (''[ModelManager] Starting background fetch: '' @ id' smallModel)
                        emptyWorld)
                   = (fst ?dl, Inl (Error ''Download failed: Not Found''))"
    using fs ns nr av run by blast
  from a [THEN conjunct2, THEN conjunct2, THEN conjunct2, THEN conjunct2, THEN spec, THEN spec,
      THEN spec, THEN mp, OF h5]
  have 1: "snd (startBackgroundModelFetch exampleDigest notFound None None ?small emptyWorld) = Inr ()"
    and 2: "last (console (fst (startBackgroundModelFetch exampleDigest notFound None None ?small
                emptyWorld)))
       = (Err, ''[ModelManager] Background download failed:'')"
    by (simp_all add: consoleOut_def)
  from b [THEN conjunct2, THEN conjunct2, THEN conjunct1, THEN mp, OF fseed]
  have 3: "snd (startBackgroundModelFetch exampleDigest completeStream (Some ?dberr) None ?seedc
                  emptyWorld) = Inr ()"
    and 4: "noTransfer emptyWorld
        (fst (startBackgroundModelFetch exampleDigest completeStream (Some ?dberr) None ?seedc
                emptyWorld))"
    by simp_all
  have h3: "find (\<lambda>m. id' m = recommendedModel ?small) DEFAULT_MANIFEST_models = Some smallModel
                \<and> \<not> isSeed smallModel \<and> None = (None :: thrown option)
                \<and> \<not> isModelReady (id' smallModel) emptyWorld
                \<and> littleRoom = Some (Inr ?est) \<and> headroom ?est < int (size' smallModel)"
    using fs ns nr hr by (simp add: littleRoom_def)
  from c [THEN conjunct2, THEN conjunct2, THEN conjunct2, THEN conjunct1, THEN spec, THEN spec,
      THEN mp, OF h3]
  have 5: "snd (startBackgroundModelFetch exampleDigest completeStream None littleRoom ?small
                  emptyWorld) = Inr ()"
    and 6: "noTransfer emptyWorld
        (fst (startBackgroundModelFetch exampleDigest completeStream None littleRoom ?small emptyWorld))"
    and 7: "console (fst (startBackgroundModelFetch exampleDigest completeStream None littleRoom ?small
                emptyWorld))
       = [(Warn, ''[ModelManager] Insufficient storage for model download'')]"
    by (simp_all add: emptyWorld_def)
  have h8: "\<exists>model. find (\<lambda>m. id' m = recommendedModel ?small) DEFAULT_MANIFEST_models = Some model
           \<and> \<not> isSeed model
           \<and> (Some ?dberr = Some ?dberr
               \<or> (Some ?dberr = None \<and> \<not> isModelReady (id' model) emptyWorld
                   \<and> None = Some (Inl ?dberr)))"
    using fs ns by blast
  from d [THEN conjunct1, THEN spec, of ?dberr] h8
  have 8: "snd (startBackgroundModelFetch exampleDigest completeStream (Some ?dberr) None ?small
                  emptyWorld) = Inl ?dberr"
    by blast
  from d [THEN conjunct2, THEN conjunct1, THEN spec, THEN mp, OF 8]
  have 9: "fst (startBackgroundModelFetch exampleDigest completeStream (Some ?dberr) None ?small
                  emptyWorld) = emptyWorld" .
  from 8 9 have 10: "startBackgroundModelFetch exampleDigest completeStream (Some ?dberr) None ?small
                  emptyWorld = (emptyWorld, Inl ?dberr)"
    by (simp add: prod_eq_iff)
  from 1 2 dl 3 4 5 6 7 10 show ?thesis by blast
qed

text \<open>
  The claim as stated fails when the database does not open, and when the storage estimate
  rejects: the rejection reaches the caller.
\<close>

theorem startBackgroundModelFetch_throws:
  "snd (startBackgroundModelFetch exampleDigest notFound (Some (Error ''InvalidStateError'')) None
          (capsFor ''llm-small-q4'') emptyWorld)
     = Inl (Error ''InvalidStateError'')
   \<and> snd (startBackgroundModelFetch exampleDigest notFound None (Some (Inl (Error ''TypeError'')))
          (capsFor ''llm-small-q4'') emptyWorld)
     = Inl (Error ''TypeError'')"
  by (simp add: startBackgroundModelFetch_def awaitIsModelReady_def checkStorageAvailability_def
      capsFor_def DEFAULT_MANIFEST_models_def isModelReady_def emptyWorld_def)

section \<open>Base64 there and back\<close>

lemma base64Value_Char: "i < 64 \<Longrightarrow> base64Value (base64Char i) = i"
  by (auto simp: base64Value_def base64Char_def Let_def)

lemma base64Value_whitespace: "isAsciiWhitespace c \<Longrightarrow> base64Value c = 64"
  by (auto simp: base64Value_def isAsciiWhitespace_def Let_def)

lemma base64Value_pad: "base64Value (CHR ''='') = 64"
  by (simp add: base64Value_def)

lemma base64Char_plain:
  assumes "i < 64"
  shows "\<not> isAsciiWhitespace (base64Char i)" and "base64Char i \<noteq> CHR ''=''"
  using assms base64Value_Char [OF assms] base64Value_whitespace [of "base64Char i"]
    base64Value_pad
  by auto

lemma sextets_less: "\<forall>n \<in> set ns. n < 256 \<Longrightarrow> \<forall>x \<in> set (sextets ns). x < 64"
  by (induction ns rule: sextets.induct) auto

lemma sextetsToBytes_sextets: "\<forall>n \<in> set ns. n < 256 \<Longrightarrow> sextetsToBytes (sextets ns) = ns"
  by (induction ns rule: sextets.induct) auto


lemma btoa_sextets:
  "btoa ns = map base64Char (sextets ns) @ replicate ((3 - length ns mod 3) mod 3) (CHR ''='')"
proof (induction ns rule: sextets.induct)
  case (4 a b c r)
  have "length (a # b # c # r) mod 3 = length r mod 3" by simp
  with 4 show ?case by simp
next
  case 1
  show ?case by simp
next
  case (2 a)
  have "replicate 2 (CHR ''='') = ''==''" by (simp add: numeral_2_eq_2)
  then show ?case by simp
next
  case (3 a b)
  show ?case by simp
qed

lemma length_sextets:
  "length (sextets ns) = 4 * (length ns div 3) + (if length ns mod 3 = 0 then 0 else length ns mod 3 + 1)"
proof (induction ns rule: sextets.induct)
  case (4 a b c r)
  have "length (a # b # c # r) mod 3 = length r mod 3"
    and "length (a # b # c # r) div 3 = Suc (length r div 3)" by simp_all
  with 4 show ?case by simp
qed simp_all


lemma atob_btoa:
  assumes bytes: "\<forall>n \<in> set ns. n < 256"
  shows "atob (btoa ns) = Inr ns"
proof -
  let ?sx = "sextets ns"
  let ?m = "map base64Char ?sx"
  let ?p = "(3 - length ns mod 3) mod 3"
  have lt: "\<forall>x \<in> set ?sx. x < 64" using bytes by (rule sextets_less)
  have plain: "\<forall>c \<in> set ?m. \<not> isAsciiWhitespace c \<and> c \<noteq> CHR ''='' \<and> base64Value c \<noteq> 64"
    using lt base64Char_plain base64Value_Char by fastforce
  have nopad: "\<not> isAsciiWhitespace (CHR ''='')" by (simp add: isAsciiWhitespace_def)
  have vals: "map base64Value ?m = ?sx"
    using lt by (simp add: map_idI base64Value_Char)
  have lastm: "last ?m \<noteq> CHR ''=''" if "?m \<noteq> []"
    using plain last_in_set [OF that] by blast
  have filt: "filter (\<lambda>c. \<not> isAsciiWhitespace c) (?m @ replicate ?p (CHR ''='')) = ?m @ replicate ?p (CHR ''='')"
    using plain nopad by (intro filter_True) auto
  have len: "length ?m = 4 * (length ns div 3) + (if length ns mod 3 = 0 then 0 else length ns mod 3 + 1)"
    by (simp add: length_sextets)
  have fin: "(if length ?m mod 4 = 1 \<or> (\<exists>c \<in> set ?m. base64Value c = 64)
         then Inl (Error ''InvalidCharacterError'')
         else Inr (sextetsToBytes (map base64Value ?m))) = Inr ns"
    if "length ?m mod 4 \<noteq> 1"
    using that plain vals sextetsToBytes_sextets [OF bytes] by auto
  have "length ns mod 3 = 0 \<or> length ns mod 3 = 1 \<or> length ns mod 3 = 2" by arith
  then show ?thesis
  proof (elim disjE)
    assume c: "length ns mod 3 = 0"
    then have p: "replicate ?p (CHR ''='') = []" by simp
    from c len have l4: "length ?m mod 4 = 0" by simp
    then have l1: "length ?m mod 4 \<noteq> 1" by simp
    have f: "filter (\<lambda>c. \<not> isAsciiWhitespace c) ?m = ?m"
      using filt p by simp
    have s2: "(if length ?m mod 4 = 0 \<and> ?m \<noteq> [] \<and> last ?m = CHR ''=''
               then (if butlast ?m \<noteq> [] \<and> last (butlast ?m) = CHR ''=''
                     then butlast (butlast ?m) else butlast ?m)
               else ?m) = ?m"
      using lastm by auto
    show ?thesis
      unfolding btoa_sextets p append_Nil2 atob_def Let_def f s2 by (rule fin [OF l1])
  next
    assume c: "length ns mod 3 = 1"
    then have p: "replicate ?p (CHR ''='') = ''==''" by (simp add: numeral_2_eq_2)
    from c len have "length ?m = 4 * (length ns div 3) + 2" by simp
    then have l4: "length ?m mod 4 = 2" by presburger
    then have ne: "?m \<noteq> []" by auto
    from l4 have l1: "length ?m mod 4 \<noteq> 1" by simp
    have l0: "length (?m @ ''=='') mod 4 = 0" using l4 by simp presburger
    have f: "filter (\<lambda>c. \<not> isAsciiWhitespace c) (?m @ ''=='') = ?m @ ''==''"
      using filt p by simp
    have s2: "(if length (?m @ ''=='') mod 4 = 0 \<and> ?m @ ''=='' \<noteq> [] \<and> last (?m @ ''=='') = CHR ''=''
               then (if butlast (?m @ ''=='') \<noteq> [] \<and> last (butlast (?m @ ''=='')) = CHR ''=''
                     then butlast (butlast (?m @ ''=='')) else butlast (?m @ ''==''))
               else ?m @ ''=='') = ?m"
      using l0 by (simp add: butlast_append)
    show ?thesis
      unfolding btoa_sextets p atob_def Let_def f s2 by (rule fin [OF l1])
  next
    assume c: "length ns mod 3 = 2"
    then have p: "replicate ?p (CHR ''='') = ''=''" by simp
    from c len have "length ?m = 4 * (length ns div 3) + 3" by simp
    then have l4: "length ?m mod 4 = 3" by presburger
    then have ne: "?m \<noteq> []" by auto
    from l4 have l1: "length ?m mod 4 \<noteq> 1" by simp
    have l0: "length (?m @ ''='') mod 4 = 0" using l4 by simp presburger
    have f: "filter (\<lambda>c. \<not> isAsciiWhitespace c) (?m @ ''='') = ?m @ ''=''"
      using filt p by simp
    have s2: "(if length (?m @ ''='') mod 4 = 0 \<and> ?m @ ''='' \<noteq> [] \<and> last (?m @ ''='') = CHR ''=''
               then (if butlast (?m @ ''='') \<noteq> [] \<and> last (butlast (?m @ ''='')) = CHR ''=''
                     then butlast (butlast (?m @ ''='')) else butlast (?m @ ''=''))
               else ?m @ ''='') = ?m"
      using l0 lastm [OF ne] ne by (simp add: butlast_append)
    show ?thesis
      unfolding btoa_sextets p atob_def Let_def f s2 by (rule fin [OF l1])
  qed
qed

lemma base64ToBuffer_btoa: "base64ToBuffer (btoa (map unat buffer)) = Inr buffer"
proof -
  have "\<forall>n \<in> set (map unat buffer). n < 256"
    using unsigned_less [where ?'a = nat and ?'b = 8] by auto
  then have "atob (btoa (map unat buffer)) = Inr (map unat buffer)" by (rule atob_btoa)
  then show ?thesis
    by (simp add: base64ToBuffer_def comp_def map_idI)
qed

lemma bufferToBase64_within:
  "length buffer \<le> maxArguments \<Longrightarrow> bufferToBase64 maxArguments buffer = Inr (btoa (map unat buffer))"
  by (simp add: bufferToBase64_def)

lemma bufferToBase64_beyond:
  "maxArguments < length buffer \<Longrightarrow> bufferToBase64 maxArguments buffer = Inl (Error ''RangeError'')"
  by (simp add: bufferToBase64_def)

section \<open>UTF-8 there and back\<close>

lemma lead_mod:
  fixes x :: nat
  shows "x < 32 \<Longrightarrow> (192 + x) mod 32 = x"
    and "x < 16 \<Longrightarrow> (224 + x) mod 16 = x"
    and "x < 8 \<Longrightarrow> (240 + x) mod 8 = x"
    and "(128 + x mod 64) mod 64 = x mod 64"
proof -
  show "x < 32 \<Longrightarrow> (192 + x) mod 32 = x"
    using mod_mult_self3 [of 6 32 x] by simp
  show "x < 16 \<Longrightarrow> (224 + x) mod 16 = x"
    using mod_mult_self3 [of 14 16 x] by simp
  show "x < 8 \<Longrightarrow> (240 + x) mod 8 = x"
    using mod_mult_self3 [of 30 8 x] by simp
  show "(128 + x mod 64) mod 64 = x mod 64"
    using mod_mult_self3 [of 2 64 "x mod 64"] by simp
qed

lemma rebuild:
  fixes cp :: nat
  shows "(cp div 64) * 64 + cp mod 64 = cp"
    and "((cp div 4096) * 64 + (cp div 64) mod 64) * 64 + cp mod 64 = cp"
    and "(((cp div 262144) * 64 + (cp div 4096) mod 64) * 64 + (cp div 64) mod 64) * 64 + cp mod 64 = cp"
proof -
  have d2: "cp div 4096 = cp div 64 div 64"
    using div_mult2_eq [of cp 64 64] by simp
  have d3: "cp div 262144 = cp div 64 div 64 div 64"
    using div_mult2_eq [of cp 4096 64] d2 by simp
  show 1: "(cp div 64) * 64 + cp mod 64 = cp" by simp
  have 2: "(cp div 64 div 64) * 64 + (cp div 64) mod 64 = cp div 64" by simp
  show "((cp div 4096) * 64 + (cp div 64) mod 64) * 64 + cp mod 64 = cp"
    unfolding d2 2 by (rule 1)
  have 3: "(cp div 64 div 64 div 64) * 64 + (cp div 64 div 64) mod 64 = cp div 64 div 64" by simp
  show "(((cp div 262144) * 64 + (cp div 4096) mod 64) * 64 + (cp div 64) mod 64) * 64 + cp mod 64 = cp"
    unfolding d3 d2 3 2 by (rule 1)
qed

lemma decode1:
  assumes "cp < 0x80"
  shows "utf8Decode utf8Initial (utf8Bytes cp @ r) = cp # utf8Decode utf8Initial r"
  using assms by (simp add: utf8Bytes_def utf8Step_def utf8Start_def utf8Initial_def)

lemma cont_step:
  assumes "lower \<le> 0x80 + x mod 64" "0x80 + x mod 64 \<le> upper"
  shows "1 < needed \<Longrightarrow> utf8Step (needed, cp, lower, upper) (0x80 + x mod 64)
           = ((needed - 1, cp * 64 + x mod 64, 0x80, 0xBF), [])"
    and "utf8Step (1, cp, lower, upper) (0x80 + x mod 64)
           = (utf8Initial, [cp * 64 + x mod 64])"
  using assms by (simp_all add: utf8Step_def lead_mod del: mod_add_right_eq)

lemma last_bounds:
  fixes x :: nat
  shows "0x80 \<le> 0x80 + x mod 64" and "0x80 + x mod 64 \<le> 0xBF"
proof -
  show "0x80 \<le> 0x80 + x mod 64" by simp
  have "x mod 64 < 64" by simp
  then show "0x80 + x mod 64 \<le> 0xBF" by linarith
qed

lemma decode2:
  assumes "0x80 \<le> cp" "cp < 0x800"
  shows "utf8Decode utf8Initial (utf8Bytes cp @ r) = cp # utf8Decode utf8Initial r"
proof -
  let ?b0 = "0xC0 + cp div 64"
  have b: "utf8Bytes cp = [?b0, 0x80 + cp mod 64]" using assms by (simp add: utf8Bytes_def)
  have x: "2 \<le> cp div 64" "cp div 64 < 32" using assms by simp_all
  have s0: "utf8Step utf8Initial ?b0 = ((1, cp div 64, 0x80, 0xBF), [])"
    using x by (simp add: utf8Step_def utf8Start_def utf8Initial_def lead_mod)
  have s1: "utf8Step (1, cp div 64, 0x80, 0xBF) (0x80 + cp mod 64) = (utf8Initial, [cp])"
    using cont_step(2) [OF last_bounds, of "cp div 64" cp] by (simp only: rebuild)
  show ?thesis
    by (simp only: b append_Cons append_Nil utf8Decode.simps s0 s1 prod.case)
qed

lemma second_of_three:
  fixes cp :: nat
  shows "0x800 \<le> cp \<Longrightarrow> cp div 4096 = 0 \<Longrightarrow> 32 \<le> (cp div 64) mod 64"
    and "cp div 4096 = 13 \<Longrightarrow> cp < 0xD800 \<Longrightarrow> (cp div 64) mod 64 < 32"
proof -
  show "32 \<le> (cp div 64) mod 64" if "0x800 \<le> cp" "cp div 4096 = 0"
  proof -
    from that(2) have "cp < 4096" by (simp add: div_eq_0_iff)
    then have "cp div 64 < 64" by simp
    moreover from that(1) have "32 \<le> cp div 64" by simp
    ultimately show ?thesis by simp
  qed
  show "(cp div 64) mod 64 < 32" if "cp div 4096 = 13" "cp < 0xD800"
  proof -
    have "cp div 64 div 64 = 13" using that(1) div_mult2_eq [of cp 64 64] by simp
    then have "cp div 64 = 13 * 64 + (cp div 64) mod 64"
      using div_mult_mod_eq [of "cp div 64" 64] by simp
    moreover from that(2) have "cp div 64 < 864" by simp
    ultimately show ?thesis by linarith
  qed
qed

lemma decode3:
  assumes "0x800 \<le> cp" "cp < 0x10000" "\<not> (0xD800 \<le> cp \<and> cp \<le> 0xDFFF)"
  shows "utf8Decode utf8Initial (utf8Bytes cp @ r) = cp # utf8Decode utf8Initial r"
proof -
  let ?x0 = "cp div 4096"
  let ?b0 = "0xE0 + ?x0"
  let ?lower = "if ?b0 = 0xE0 then 0xA0 else (0x80 :: nat)"
  let ?upper = "if ?b0 = 0xED then 0x9F else (0xBF :: nat)"
  let ?c1 = "?x0 * 64 + (cp div 64) mod 64"
  have b: "utf8Bytes cp = [?b0, 0x80 + (cp div 64) mod 64, 0x80 + cp mod 64]"
    using assms by (simp add: utf8Bytes_def)
  have x: "?x0 < 16" using assms by simp
  have s0: "utf8Step utf8Initial ?b0 = ((2, ?x0, ?lower, ?upper), [])"
    using x by (simp add: utf8Step_def utf8Start_def utf8Initial_def lead_mod)
  have lo: "?lower \<le> 0x80 + (cp div 64) mod 64"
    using second_of_three(1) [of cp] assms by simp
  have up: "0x80 + (cp div 64) mod 64 \<le> ?upper"
  proof (cases "?x0 = 13")
    case True
    then have "0xD000 \<le> cp" "cp < 0xE000" by simp_all
    with assms have "cp < 0xD800" by simp
    from second_of_three(2) [OF True this] True show ?thesis by simp
  next
    case False
    have "(cp div 64) mod 64 < 64" by simp
    then have "(cp div 64) mod 64 \<le> 63" by linarith
    with False show ?thesis by simp
  qed
  have s1: "utf8Step (2, ?x0, ?lower, ?upper) (0x80 + (cp div 64) mod 64)
              = ((1, ?c1, 0x80, 0xBF), [])"
    using cont_step(1) [OF lo up, of 2 ?x0] by simp
  have s2: "utf8Step (1, ?c1, 0x80, 0xBF) (0x80 + cp mod 64) = (utf8Initial, [cp])"
    using cont_step(2) [OF last_bounds, of ?c1 cp] by (simp only: rebuild)
  show ?thesis
    by (simp only: b append_Cons append_Nil utf8Decode.simps s0 s1 s2 prod.case)
qed


lemma second_of_four:
  fixes cp :: nat
  shows "0x10000 \<le> cp \<Longrightarrow> cp div 262144 = 0 \<Longrightarrow> 16 \<le> (cp div 4096) mod 64"
    and "cp div 262144 = 4 \<Longrightarrow> cp < 0x110000 \<Longrightarrow> (cp div 4096) mod 64 < 16"
proof -
  show "16 \<le> (cp div 4096) mod 64" if "0x10000 \<le> cp" "cp div 262144 = 0"
  proof -
    from that(2) have "cp < 262144" by (simp add: div_eq_0_iff)
    then have "cp div 4096 < 64" by simp
    moreover from that(1) have "16 \<le> cp div 4096" by simp
    ultimately show ?thesis by simp
  qed
  show "(cp div 4096) mod 64 < 16" if "cp div 262144 = 4" "cp < 0x110000"
  proof -
    have "cp div 4096 div 64 = 4" using that(1) div_mult2_eq [of cp 4096 64] by simp
    then have "cp div 4096 = 4 * 64 + (cp div 4096) mod 64"
      using div_mult_mod_eq [of "cp div 4096" 64] by simp
    moreover from that(2) have "cp div 4096 < 272" by simp
    ultimately show ?thesis by linarith
  qed
qed

lemma decode4:
  assumes "0x10000 \<le> cp" "cp < 0x110000"
  shows "utf8Decode utf8Initial (utf8Bytes cp @ r) = cp # utf8Decode utf8Initial r"
proof -
  let ?x0 = "cp div 262144"
  let ?b0 = "0xF0 + ?x0"
  let ?lower = "if ?b0 = 0xF0 then 0x90 else (0x80 :: nat)"
  let ?upper = "if ?b0 = 0xF4 then 0x8F else (0xBF :: nat)"
  let ?c1 = "?x0 * 64 + (cp div 4096) mod 64"
  let ?c2 = "?c1 * 64 + (cp div 64) mod 64"
  have b: "utf8Bytes cp = [?b0, 0x80 + (cp div 4096) mod 64, 0x80 + (cp div 64) mod 64,
                           0x80 + cp mod 64]"
    using assms by (simp add: utf8Bytes_def)
  have x: "?x0 < 5" using assms by simp
  then have x8: "?x0 < 8" by simp
  have s0: "utf8Step utf8Initial ?b0 = ((3, ?x0, ?lower, ?upper), [])"
    using x by (simp add: utf8Step_def utf8Start_def utf8Initial_def lead_mod(3) [OF x8])
  have lo: "?lower \<le> 0x80 + (cp div 4096) mod 64"
    using second_of_four(1) [of cp] assms by simp
  have up: "0x80 + (cp div 4096) mod 64 \<le> ?upper"
  proof (cases "?x0 = 4")
    case True
    from second_of_four(2) [OF True assms(2)] True show ?thesis by simp
  next
    case False
    have "(cp div 4096) mod 64 < 64" by simp
    then have "(cp div 4096) mod 64 \<le> 63" by linarith
    with False show ?thesis by simp
  qed
  have s1: "utf8Step (3, ?x0, ?lower, ?upper) (0x80 + (cp div 4096) mod 64)
              = ((2, ?c1, 0x80, 0xBF), [])"
    using cont_step(1) [OF lo up, of 3 ?x0] by simp
  have s2: "utf8Step (2, ?c1, 0x80, 0xBF) (0x80 + (cp div 64) mod 64)
              = ((1, ?c2, 0x80, 0xBF), [])"
    using cont_step(1) [OF last_bounds, of 2 ?c1 "cp div 64"] by simp
  have s3: "utf8Step (1, ?c2, 0x80, 0xBF) (0x80 + cp mod 64) = (utf8Initial, [cp])"
    using cont_step(2) [OF last_bounds, of ?c2 cp] by (simp only: rebuild)
  show ?thesis
    by (simp only: b append_Cons append_Nil utf8Decode.simps s0 s1 s2 s3 prod.case)
qed

lemma utf8Decode_utf8Bytes:
  assumes "isScalar cp"
  shows "utf8Decode utf8Initial (utf8Bytes cp @ r) = cp # utf8Decode utf8Initial r"
proof -
  from assms consider "cp < 0x80" | "0x80 \<le> cp" "cp < 0x800"
    | "0x800 \<le> cp" "cp < 0x10000" "\<not> (0xD800 \<le> cp \<and> cp \<le> 0xDFFF)"
    | "0x10000 \<le> cp" "cp < 0x110000"
    unfolding isScalar_def by linarith
  then show ?thesis
    by cases (rule decode1 decode2 decode3 decode4; assumption)+
qed

lemma utf8Decode_concat:
  "\<forall>cp \<in> set cps. isScalar cp \<Longrightarrow>
     utf8Decode utf8Initial (concat (map utf8Bytes cps)) = cps"
proof (induction cps)
  case Nil
  show ?case by (simp add: utf8Initial_def)
next
  case (Cons cp cps)
  then show ?case by (simp add: utf8Decode_utf8Bytes)
qed

lemma unat16_less: "unat (c :: 16 word) < 65536"
  using unsigned_less [of c, where ?'a = nat] by simp

lemma pair_value:
  fixes h l :: nat
  assumes "0xD800 \<le> h" "h \<le> 0xDBFF" "0xDC00 \<le> l" "l \<le> 0xDFFF"
  defines "cp \<equiv> 0x10000 + (h - 0xD800) * 0x400 + (l - 0xDC00)"
  shows "isScalar cp" and "\<not> cp < 0x10000"
    and "0xD800 + (cp - 0x10000) div 0x400 = h" and "0xDC00 + (cp - 0x10000) mod 0x400 = l"
proof -
  let ?a = "h - 0xD800" and ?b = "l - 0xDC00"
  have a: "?a < 0x400" and b: "?b < 0x400" using assms by simp_all
  have c: "cp - 0x10000 = ?a * 0x400 + ?b" by (simp add: cp_def)
  have "?a * 0x400 + ?b < 0x400 * 0x400"
    using a b by simp
  then show "isScalar cp" unfolding isScalar_def cp_def by simp
  show "\<not> cp < 0x10000" by (simp add: cp_def)
  have "(?a * 0x400 + ?b) div 0x400 = ?a" using b by simp
  then show "0xD800 + (cp - 0x10000) div 0x400 = h" unfolding c using assms by simp
  have "(?a * 0x400 + ?b) mod 0x400 = ?b" using b by simp
  then show "0xDC00 + (cp - 0x10000) mod 0x400 = l" unfolding c using assms by simp
qed

lemma utf16Units_pair:
  assumes "isHighSurrogate c" "isLowSurrogate d"
  shows "utf16Units (0x10000 + (unat c - 0xD800) * 0x400 + (unat d - 0xDC00)) = [c, d]"
    and "isScalar (0x10000 + (unat c - 0xD800) * 0x400 + (unat d - 0xDC00))"
proof -
  from assms have r: "0xD800 \<le> unat c" "unat c \<le> 0xDBFF" "0xDC00 \<le> unat d" "unat d \<le> 0xDFFF"
    by (simp_all add: isHighSurrogate_def isLowSurrogate_def)
  note p = pair_value [OF r]
  show "isScalar (0x10000 + (unat c - 0xD800) * 0x400 + (unat d - 0xDC00))" by (rule p(1))
  show "utf16Units (0x10000 + (unat c - 0xD800) * 0x400 + (unat d - 0xDC00)) = [c, d]"
    unfolding utf16Units_def using p(2) by (simp only: if_False p(3) p(4)) simp
qed

lemma utf16Units_single:
  assumes "\<not> isHighSurrogate c" "\<not> isLowSurrogate c"
  shows "utf16Units (unat c) = [c]" and "isScalar (unat c)"
  using assms unat16_less [of c]
  by (auto simp: utf16Units_def isScalar_def isHighSurrogate_def isLowSurrogate_def)

lemma scalarValues_wellFormed:
  "wellFormed s \<Longrightarrow>
     (\<forall>cp \<in> set (scalarValues s). isScalar cp) \<and> concat (map utf16Units (scalarValues s)) = s"
proof (induction s rule: scalarValues.induct)
  case 1
  show ?case by simp
next
  case (2 c)
  then show ?case by (simp add: utf16Units_single)
next
  case (3 c d r)
  show ?case
  proof (cases "isHighSurrogate c")
    case True
    with "3.prems" have d: "isLowSurrogate d" and r: "wellFormed r" by simp_all
    from "3.IH"(1) True d r show ?thesis
      by (simp add: utf16Units_pair)
  next
    case False
    with "3.prems" have c: "\<not> isLowSurrogate c" and r: "wellFormed (d # r)" by simp_all
    from "3.IH"(3) False c r show ?thesis
      by (simp add: utf16Units_single)
  qed
qed

lemma utf8Bytes_range: "isScalar cp \<Longrightarrow> \<forall>b \<in> set (utf8Bytes cp). b < 256"
proof -
  assume s: "isScalar cp"
  have c: "0x80 + x mod 64 < 256" for x :: nat
    using last_bounds(2) [of x] by linarith
  from s have "cp < 0x110000" by (simp add: isScalar_def)
  then have "cp div 262144 < 5" by simp
  then have 4: "0xF0 + cp div 262144 < 256" by linarith
  have 3: "0xE0 + cp div 4096 < 256" if "cp < 0x10000"
  proof -
    from that have "cp div 4096 < 16" by simp
    then show ?thesis by linarith
  qed
  have 2: "0xC0 + cp div 64 < 256" if "cp < 0x800"
  proof -
    from that have "cp div 64 < 32" by simp
    then show ?thesis by linarith
  qed
  show ?thesis
    unfolding utf8Bytes_def using c 2 3 4 by auto
qed

lemma unat_of_nat_byte: "b < 256 \<Longrightarrow> unat (of_nat b :: 8 word) = b"
  by (simp add: unsigned_of_nat take_bit_nat_eq_self)

lemma bytes_roundtrip:
  "\<forall>b \<in> set bs. b < 256 \<Longrightarrow> map unat (map of_nat bs :: 8 word list) = bs"
  by (induction bs) (simp_all add: unat_of_nat_byte)

lemma bom_only:
  assumes s: "isScalar cp" and t: "take 3 (utf8Bytes cp @ rest) = [0xEF, 0xBB, 0xBF]"
  shows "cp = 0xFEFF"
proof -
  from s consider "cp < 0x80" | "0x80 \<le> cp" "cp < 0x800"
    | "0x800 \<le> cp" "cp < 0x10000" | "0x10000 \<le> cp"
    by linarith
  then show ?thesis
  proof cases
    case 1
    with t show ?thesis by (simp add: utf8Bytes_def)
  next
    case 2
    then have "cp div 64 < 32" by simp
    with 2 t show ?thesis by (simp add: utf8Bytes_def)
  next
    case 3
    with t have e: "0xE0 + cp div 4096 = 0xEF" "0x80 + (cp div 64) mod 64 = 0xBB"
      "0x80 + cp mod 64 = 0xBF"
      by (simp_all add: utf8Bytes_def)
    then have "cp div 4096 = 15" "(cp div 64) mod 64 = 59" "cp mod 64 = 63" by linarith+
    with rebuild(2) [of cp] show ?thesis by simp
  next
    case 4
    with t show ?thesis by (simp add: utf8Bytes_def)
  qed
qed

lemma unat_bom:
  assumes "unat (c :: 16 word) = 0xFEFF"
  shows "c = 0xFEFF"
proof -
  have "c = of_nat (unat c)" by simp
  also have "\<dots> = 0xFEFF" unfolding assms by simp
  finally show ?thesis .
qed

lemma no_bom:
  assumes wf: "wellFormed s" and nb: "take 1 s \<noteq> [0xFEFF]"
  shows "take 3 (concat (map utf8Bytes (scalarValues s))) \<noteq> [0xEF, 0xBB, 0xBF]"
proof (cases s rule: scalarValues.cases)
  case 1
  then show ?thesis by simp
next
  case (2 c)
  with wf have c: "\<not> isHighSurrogate c" "\<not> isLowSurrogate c" by simp_all
  from 2 nb have "c \<noteq> 0xFEFF" by simp
  then have ne: "unat c \<noteq> 0xFEFF" using unat_bom by blast
  show ?thesis
  proof
    assume "take 3 (concat (map utf8Bytes (scalarValues s))) = [0xEF, 0xBB, 0xBF]"
    with 2 c have "take 3 (utf8Bytes (unat c) @ []) = [0xEF, 0xBB, 0xBF]" by simp
    from bom_only [OF utf16Units_single(2) [OF c] this] ne show False by simp
  qed
next
  case (3 c d r)
  show ?thesis
  proof (cases "isHighSurrogate c")
    case True
    with 3 wf have d: "isLowSurrogate d" by simp
    let ?cp = "0x10000 + (unat c - 0xD800) * 0x400 + (unat d - 0xDC00)"
    show ?thesis
    proof
      assume "take 3 (concat (map utf8Bytes (scalarValues s))) = [0xEF, 0xBB, 0xBF]"
      with 3 True d have "take 3 (utf8Bytes ?cp @ concat (map utf8Bytes (scalarValues r)))
          = [0xEF, 0xBB, 0xBF]" by simp
      from bom_only [OF utf16Units_pair(2) [OF True d] this] show False by simp
    qed
  next
    case False
    with 3 wf have c: "\<not> isHighSurrogate c" "\<not> isLowSurrogate c" by simp_all
    from 3 nb have "c \<noteq> 0xFEFF" by simp
    then have ne: "unat c \<noteq> 0xFEFF" using unat_bom by blast
    show ?thesis
    proof
      assume "take 3 (concat (map utf8Bytes (scalarValues s))) = [0xEF, 0xBB, 0xBF]"
      with 3 c have "take 3 (utf8Bytes (unat c) @ concat (map utf8Bytes (scalarValues (d # r))))
          = [0xEF, 0xBB, 0xBF]" by simp
      from bom_only [OF utf16Units_single(2) [OF c] this] ne show False by simp
    qed
  qed
qed

lemma TextDecoder_TextEncoder:
  assumes wf: "wellFormed s" and nb: "take 1 s \<noteq> [0xFEFF]"
  shows "TextDecoder_decode (TextEncoder_encode s) = s"
proof -
  let ?bs = "concat (map utf8Bytes (scalarValues s))"
  note w = scalarValues_wellFormed [OF wf]
  from w have sc: "\<forall>cp \<in> set (scalarValues s). isScalar cp" by blast
  then have "\<forall>b \<in> set ?bs. b < 256" using utf8Bytes_range by auto
  then have rt: "map unat (map of_nat ?bs :: 8 word list) = ?bs" by (rule bytes_roundtrip)
  have d: "utf8Decode utf8Initial ?bs = scalarValues s"
    using sc by (rule utf8Decode_concat)
  show ?thesis
    unfolding TextDecoder_decode_def TextEncoder_encode_def Let_def rt
    using no_bom [OF wf nb] w by (simp add: d)
qed

section \<open>Encryption there and back\<close>

lemma exampleCipher: "exampleDecrypt key nonce (exampleEncrypt key nonce plain) = Some plain"
  by (simp add: exampleDecrypt_def exampleEncrypt_def comp_def)

lemma scalarValues_ascii:
  "\<forall>c \<in> set s. unat c < 0x80 \<Longrightarrow> scalarValues s = map unat s"
  by (induction s rule: scalarValues.induct)
     (auto simp: isHighSurrogate_def isLowSurrogate_def)

lemma length_TextEncoder_ascii:
  assumes "\<forall>c \<in> set s. unat c < 0x80"
  shows "length (TextEncoder_encode s) = length s"
proof -
  have *: "length (concat (map utf8Bytes ns)) = length ns" if "\<forall>n \<in> set ns. n < 0x80" for ns
    using that by (induction ns) (simp_all add: utf8Bytes_def)
  from assms have "\<forall>n \<in> set (map unat s). n < 0x80" by simp
  from this [THEN *] have "length (concat (map utf8Bytes (map unat s))) = length s" by simp
  then show ?thesis
    by (simp only: TextEncoder_encode_def scalarValues_ascii [OF assms] length_map)
qed

lemma decryptEncrypt_within:
  assumes aes: "\<forall>key nonce plain. aesGcmDecrypt key nonce (aesGcmEncrypt key nonce plain) = Some plain"
    and len: "length ivBuf \<le> maxArguments" "length saltBuf \<le> maxArguments"
      "length (aesGcmEncrypt (deriveKey kdf saltBuf) ivBuf (TextEncoder_encode B)) \<le> maxArguments"
  shows "decryptEncrypt kdf aesGcmEncrypt aesGcmDecrypt maxArguments saltBuf ivBuf B
           = Inr (TextDecoder_decode (TextEncoder_encode B))"
  using aes len
  by (simp add: decryptEncrypt_def encrypt_def decrypt_def Let_def bufferToBase64_within
      base64ToBuffer_btoa)

text \<open>
  C9, as the code has it.  With a cipher whose decryption undoes its encryption under the
  same key and iv, \<open>encrypt\<close> succeeds and decrypting what it returned gives the plaintext
  back, for every salt and iv drawn, provided the plaintext is well formed (no surrogate
  outside a pair), does not begin with U+FEFF, and neither the ciphertext nor the salt nor
  the iv has more bytes than the engine accepts as arguments of one call.  When one of them
  has more, \<open>encrypt\<close> throws a \<open>RangeError\<close>.
\<close>

theorem decrypt_encrypt_within_limit:
  assumes aes: "\<forall>key nonce plain. aesGcmDecrypt key nonce (aesGcmEncrypt key nonce plain) = Some plain"
  shows "(wellFormed B \<and> take 1 B \<noteq> [0xFEFF]
          \<and> length ivBuf \<le> maxArguments \<and> length saltBuf \<le> maxArguments
          \<and> length (aesGcmEncrypt (deriveKey kdf saltBuf) ivBuf (TextEncoder_encode B)) \<le> maxArguments
          \<longrightarrow> (\<exists>encrypted. encrypt kdf aesGcmEncrypt maxArguments saltBuf ivBuf B = Inr encrypted
                   \<and> decrypt kdf aesGcmDecrypt encrypted = Inr B)
              \<and> decryptEncrypt kdf aesGcmEncrypt aesGcmDecrypt maxArguments saltBuf ivBuf B = Inr B)
       \<and> (maxArguments < length ivBuf \<or> maxArguments < length saltBuf
          \<or> maxArguments < length (aesGcmEncrypt (deriveKey kdf saltBuf) ivBuf (TextEncoder_encode B))
          \<longrightarrow> encrypt kdf aesGcmEncrypt maxArguments saltBuf ivBuf B = Inl (Error ''RangeError'')
              \<and> decryptEncrypt kdf aesGcmEncrypt aesGcmDecrypt maxArguments saltBuf ivBuf B
                  = Inl (Error ''RangeError''))"
proof (intro conjI impI)
  let ?ct = "aesGcmEncrypt (deriveKey kdf saltBuf) ivBuf (TextEncoder_encode B)"
  let ?enc = "\<lparr>iv = btoa (map unat ivBuf), data = btoa (map unat ?ct), salt = btoa (map unat saltBuf)\<rparr>"
  assume h: "wellFormed B \<and> take 1 B \<noteq> [0xFEFF]
          \<and> length ivBuf \<le> maxArguments \<and> length saltBuf \<le> maxArguments
          \<and> length ?ct \<le> maxArguments"
  then have wf: "wellFormed B" and nb: "take 1 B \<noteq> [0xFEFF]" by simp_all
  from h have e: "encrypt kdf aesGcmEncrypt maxArguments saltBuf ivBuf B = Inr ?enc"
    by (simp add: encrypt_def Let_def bufferToBase64_within)
  have d: "decrypt kdf aesGcmDecrypt ?enc = Inr B"
    using aes by (simp add: decrypt_def base64ToBuffer_btoa TextDecoder_TextEncoder [OF wf nb])
  from e d show "\<exists>encrypted. encrypt kdf aesGcmEncrypt maxArguments saltBuf ivBuf B = Inr encrypted
                   \<and> decrypt kdf aesGcmDecrypt encrypted = Inr B"
    by blast
  from e d show "decryptEncrypt kdf aesGcmEncrypt aesGcmDecrypt maxArguments saltBuf ivBuf B = Inr B"
    by (simp add: decryptEncrypt_def)
next
  let ?ct = "aesGcmEncrypt (deriveKey kdf saltBuf) ivBuf (TextEncoder_encode B)"
  assume h: "maxArguments < length ivBuf \<or> maxArguments < length saltBuf \<or> maxArguments < length ?ct"
  then show e: "encrypt kdf aesGcmEncrypt maxArguments saltBuf ivBuf B = Inl (Error ''RangeError'')"
    by (auto simp: encrypt_def Let_def bufferToBase64_def)
  then show "decryptEncrypt kdf aesGcmEncrypt aesGcmDecrypt maxArguments saltBuf ivBuf B
                  = Inl (Error ''RangeError'')"
    by (simp add: decryptEncrypt_def)
qed

theorem decrypt_encrypt_within_limit_witness:
  "wellFormed [0x68, 0x69, 0xE9, 0xD83D, 0xDE00]
   \<and> take 1 [0x68, 0x69, 0xE9, 0xD83D, 0xDE00] \<noteq> [0xFEFF :: 16 word]
   \<and> decryptEncrypt exampleKdf exampleEncrypt exampleDecrypt exampleLimit exampleSalt exampleIv
        [0x68, 0x69, 0xE9, 0xD83D, 0xDE00]
       = Inr [0x68, 0x69, 0xE9, 0xD83D, 0xDE00]
   \<and> exampleLimit < length (exampleEncrypt (deriveKey exampleKdf exampleSalt) exampleIv
                               (TextEncoder_encode (replicate 125000 0x61)))
   \<and> encrypt exampleKdf exampleEncrypt exampleLimit exampleSalt exampleIv (replicate 125000 0x61)
       = Inl (Error ''RangeError'')"
proof -
  let ?B = "[0x68, 0x69, 0xE9, 0xD83D, 0xDE00] :: DOMString"
  let ?long = "replicate 125000 0x61 :: DOMString"
  have aes: "\<forall>key nonce plain. exampleDecrypt key nonce (exampleEncrypt key nonce plain) = Some plain"
    by (simp add: exampleCipher)
  have wf: "wellFormed ?B"
    by (simp add: isHighSurrogate_def isLowSurrogate_def)
  have nb: "take 1 ?B \<noteq> [0xFEFF]" by simp
  have lb: "length (TextEncoder_encode ?B) = 8"
    by (simp add: TextEncoder_encode_def isHighSurrogate_def isLowSurrogate_def utf8Bytes_def)
  have short: "length exampleIv \<le> exampleLimit \<and> length exampleSalt \<le> exampleLimit
      \<and> length (exampleEncrypt (deriveKey exampleKdf exampleSalt) exampleIv (TextEncoder_encode ?B))
          \<le> exampleLimit"
    by (simp add: exampleIv_def exampleSalt_def exampleLimit_def exampleEncrypt_def lb)
  have "length (TextEncoder_encode ?long) = 125000"
    by (subst length_TextEncoder_ascii) simp_all
  then have long: "exampleLimit < length (exampleEncrypt (deriveKey exampleKdf exampleSalt) exampleIv
                               (TextEncoder_encode ?long))"
    by (simp add: exampleEncrypt_def exampleLimit_def)
  note t = decrypt_encrypt_within_limit [where aesGcmDecrypt = exampleDecrypt
      and aesGcmEncrypt = exampleEncrypt, OF aes]
  from t [where B = ?B and maxArguments = exampleLimit and ivBuf = exampleIv
      and saltBuf = exampleSalt and kdf = exampleKdf, THEN conjunct1] wf nb short
  have 1: "decryptEncrypt exampleKdf exampleEncrypt exampleDecrypt exampleLimit exampleSalt exampleIv ?B
       = Inr ?B"
    by blast
  from t [where B = ?long and maxArguments = exampleLimit and ivBuf = exampleIv
      and saltBuf = exampleSalt and kdf = exampleKdf, THEN conjunct2] long
  have 2: "encrypt exampleKdf exampleEncrypt exampleLimit exampleSalt exampleIv ?long
       = Inl (Error ''RangeError'')"
    by blast
  from wf nb 1 long 2 show ?thesis by blast
qed

text \<open>
  The claim as stated fails for a string that begins with U+FEFF, which \<open>TextDecoder\<close>
  drops as a byte order mark, and for a lone surrogate, which \<open>TextEncoder\<close> replaces by
  U+FFFD.
\<close>

theorem decrypt_encrypt_drops_bom:
  "decryptEncrypt exampleKdf exampleEncrypt exampleDecrypt exampleLimit exampleSalt exampleIv
        [0xFEFF, 0x68, 0x69]
     = Inr [0x68, 0x69]
   \<and> decryptEncrypt exampleKdf exampleEncrypt exampleDecrypt exampleLimit exampleSalt exampleIv
        [0xD800]
     = Inr [0xFFFD]"
proof -
  have aes: "\<forall>key nonce plain. exampleDecrypt key nonce (exampleEncrypt key nonce plain) = Some plain"
    by (simp add: exampleCipher)
  have d: "decryptEncrypt exampleKdf exampleEncrypt exampleDecrypt exampleLimit exampleSalt exampleIv B
             = Inr (TextDecoder_decode (TextEncoder_encode B))"
    if "length (TextEncoder_encode B) < 100" for B
  proof (rule decryptEncrypt_within [where aesGcmDecrypt = exampleDecrypt
        and aesGcmEncrypt = exampleEncrypt, OF aes])
    show "length exampleIv \<le> exampleLimit" by (simp add: exampleIv_def exampleLimit_def)
    show "length exampleSalt \<le> exampleLimit" by (simp add: exampleSalt_def exampleLimit_def)
    show "length (exampleEncrypt (deriveKey exampleKdf exampleSalt) exampleIv (TextEncoder_encode B))
            \<le> exampleLimit"
      using that by (simp add: exampleEncrypt_def exampleLimit_def)
  qed
  have e1: "TextEncoder_encode [0xFEFF, 0x68, 0x69] = [0xEF, 0xBB, 0xBF, 0x68, 0x69]"
    by (simp add: TextEncoder_encode_def isHighSurrogate_def isLowSurrogate_def utf8Bytes_def)
  have e2: "TextEncoder_encode [0xD800] = [0xEF, 0xBF, 0xBD]"
    by (simp add: TextEncoder_encode_def isHighSurrogate_def isLowSurrogate_def utf8Bytes_def)
  have 1: "TextDecoder_decode [0xEF, 0xBB, 0xBF, 0x68, 0x69] = [0x68, 0x69]"
    by (simp add: TextDecoder_decode_def utf8Step_def utf8Start_def utf8Initial_def utf16Units_def)
  have 2: "TextDecoder_decode [0xEF, 0xBF, 0xBD] = [0xFFFD]"
    by (simp add: TextDecoder_decode_def utf8Step_def utf8Start_def utf8Initial_def utf16Units_def)
  have l1: "length (TextEncoder_encode [0xFEFF, 0x68, 0x69]) < 100" unfolding e1 by simp
  have l2: "length (TextEncoder_encode [0xD800]) < 100" unfolding e2 by simp
  show ?thesis
    unfolding d [OF l1] d [OF l2] e1 e2 1 2 by simp
qed

end
